theory Spec2Isabelle
  imports Main "HOL-Library.Word"
begin

section \<open>Common types\<close>

text \<open>
  A Go \<open>error\<close> value is a message; the nil error is \<open>None\<close> of \<open>error option\<close>.
  A call of the source either returns, ends the process (\<open>os.Exit\<close>), panics, or blocks.
\<close>

datatype error = Err string

datatype 'a outcome = Return 'a | Exit int | Panic | Block

text \<open>\<open>time.Duration\<close> is a signed 64-bit count of nanoseconds.\<close>

type_synonym Duration = "64 word"

definition Second :: Duration where
  "Second = 1000000000"

definition Minute :: Duration where
  "Minute = 60 * Second"

section \<open>sys\_posix.go: configuration, sanity check, entry points\<close>

datatype signal = SIGUSR1 | SIGUSR2 | SIGTERM | OtherSignal nat

text \<open>
  The part of the process a call of this file can touch: the environment variables
  (\<open>os.Getenv\<close> gives the empty string for an unset variable), standard output, the lines
  written to standard error by \<open>println\<close> and the \<open>log\<close> package (without the timestamp
  that \<open>log\<close> puts in front), the operating-system calls issued so far, and the package
  variable \<open>currentProcess\<close>. The answers of the operating system are a function \<open>os\<close> of
  the calls issued before and the call made: the combined output of a command and its error.
\<close>

datatype syscall = Rename string string | Command string "string list"

datatype proc = master | slave

record world =
  environ :: "string \<Rightarrow> string"
  stdout :: string
  stderr :: "string list"
  calls :: "syscall list"
  os :: "syscall list \<Rightarrow> syscall \<Rightarrow> string \<times> error option"
  GOOS :: string
  currentProcess :: "proc option"

text \<open>
  Modelled from the spec: the type \<open>State\<close> and the value \<open>DisabledState\<close> are declared in a
  file that is not among the sources. The spec gives the runtime state a set of live
  listeners, ordered, and a flag telling whether the graceful-restart machinery is active
  or disabled (fallback).
\<close>

record State =
  Enabled :: bool
  Listeners :: "nat list"

definition DisabledState :: State where
  "DisabledState = \<lparr>Enabled = False, Listeners = []\<rparr>"

text \<open>
  \<open>Config\<close>, field by field. A nil function, a nil signal and a nil fetcher are \<open>None\<close>.
  The fetcher interface is a type parameter.
\<close>

record 'f Config =
  Required :: bool
  Program :: "(State \<Rightarrow> world \<Rightarrow> unit outcome \<times> world) option"
  Address :: string
  Addresses :: "string list"
  RestartSignal :: "signal option"
  TerminateTimeout :: Duration
  MinFetchInterval :: Duration
  PreUpgrade :: "(string \<Rightarrow> error option) option"
  Debug :: bool
  NoWarn :: bool
  NoRestart :: bool
  NoRestartAfterFetch :: bool
  Fetcher :: "'f option"
  Channel :: string
  Name :: string
  CurrentVersion :: string

definition envIsSlave :: string where
  "envIsSlave = ''simpleupdater_IS_SLAVE''"

definition envBinCheck :: string where
  "envBinCheck = ''simpleupdater_BIN_CHECK''"

definition envBinCheckLegacy :: string where
  "envBinCheckLegacy = ''GO_UPGRADE_BIN_CHECK''"

definition supported :: bool where
  "supported = True"

text \<open>
  \<open>validate\<close> works on a pointer: it returns the error and the configuration as it has
  left it. Both error returns come before the first assignment.
\<close>

definition validate :: "'f Config \<Rightarrow> error option \<times> 'f Config" where
  "validate c =
     (if Program c = None then (Some (Err ''simpleupdater.Config.Program required''), c)
      else if Address c \<noteq> [] \<and> length (Addresses c) > 0 then
        (Some (Err ''simpleupdater.Config.Address and Addresses cant both be set''), c)
      else
        let c1 = (if Address c \<noteq> [] then c\<lparr>Addresses := [Address c]\<rparr>
                  else if length (Addresses c) > 0 then c\<lparr>Address := hd (Addresses c)\<rparr>
                  else c);
            c2 = (if RestartSignal c1 = None then c1\<lparr>RestartSignal := Some SIGUSR2\<rparr> else c1);
            c3 = (if sint (TerminateTimeout c2) \<le> 0
                  then c2\<lparr>TerminateTimeout := 30 * Second\<rparr> else c2);
            c4 = (if sint (MinFetchInterval c3) \<le> 0
                  then c3\<lparr>MinFetchInterval := 1 * Second\<rparr> else c3)
        in (None, c4))"

text \<open>\<open>sanityCheck\<close>: true when a check was performed; the token goes to standard output.\<close>

definition sanityCheck :: "world \<Rightarrow> bool \<times> world" where
  "sanityCheck w =
     (let token = environ w envBinCheck in
      if token \<noteq> [] then (True, w\<lparr>stdout := stdout w @ token\<rparr>)
      else
        let token = environ w envBinCheckLegacy in
        if token \<noteq> [] then (True, w\<lparr>stdout := stdout w @ token\<rparr>)
        else (False, w))"

definition SanityCheck :: "world \<Rightarrow> unit outcome \<times> world" where
  "SanityCheck w =
     (case sanityCheck w of
        (True, w1) \<Rightarrow> (Exit 0, w1)
      | (False, w1) \<Rightarrow> (Return (), w1))"

text \<open>
  The methods \<open>run\<close> and \<open>triggerRestart\<close> of the master and of the slave are in files that
  are not among the sources: they are the parameters \<open>run\<close> and \<open>trigger\<close>. \<open>run\<close> gets the
  pointer to the configuration, so it gives back the configuration as well.
\<close>

type_synonym 'f runner =
  "proc \<Rightarrow> 'f Config \<Rightarrow> world \<Rightarrow> (error option \<times> 'f Config) outcome \<times> world"

definition runErr :: "'f runner \<Rightarrow> 'f Config \<Rightarrow> world \<Rightarrow> (error option \<times> 'f Config) outcome \<times> world" where
  "runErr run c w =
     (if \<not> supported then (Return (Some (Err (''os ('' @ GOOS w @ '') not supported'')), c), w)
      else case validate c of
        (Some err, c1) \<Rightarrow> (Return (Some err, c1), w)
      | (None, c1) \<Rightarrow>
          (case sanityCheck w of
             (True, w1) \<Rightarrow> (Return (None, c1), w1)
           | (False, w1) \<Rightarrow>
               (if environ w1 envIsSlave = ''1''
                then run slave c1 (w1\<lparr>currentProcess := Some slave\<rparr>)
                else run master c1 (w1\<lparr>currentProcess := Some master\<rparr>))))"

definition errString :: "error \<Rightarrow> string" where
  "errString e = (case e of Err m \<Rightarrow> m)"

text \<open>
  \<open>Run\<close> takes the configuration by value. \<open>log.Fatalf\<close> writes the line and exits with
  status 1; calling a nil \<open>Program\<close> panics.
\<close>

definition Run :: "'f runner \<Rightarrow> 'f Config \<Rightarrow> world \<Rightarrow> unit outcome \<times> world" where
  "Run run c w =
     (case runErr run c w of
        (Return (Some err, c1), w1) \<Rightarrow>
          (if Required c1 then
             (Exit 1, w1\<lparr>stderr := stderr w1 @ [''[simpleupdater] '' @ errString err]\<rparr>)
           else
             let w2 = (if Debug c1 \<or> \<not> NoWarn c1
                       then w1\<lparr>stderr := stderr w1 @
                              [''[simpleupdater] disabled. run failed: '' @ errString err]\<rparr>
                       else w1)
             in (case Program c1 of
                   None \<Rightarrow> (Panic, w2)
                 | Some program \<Rightarrow>
                     (case program DisabledState w2 of
                        (Return u, w3) \<Rightarrow> (Return (), w3)
                      | (out, w3) \<Rightarrow> (out, w3))))
      | (Return (None, c1), w1) \<Rightarrow> (Exit 0, w1)
      | (Exit n, w1) \<Rightarrow> (Exit n, w1)
      | (Panic, w1) \<Rightarrow> (Panic, w1)
      | (Block, w1) \<Rightarrow> (Block, w1))"

definition Restart :: "(proc \<Rightarrow> world \<Rightarrow> unit outcome \<times> world) \<Rightarrow> world \<Rightarrow> unit outcome \<times> world" where
  "Restart trigger w =
     (case currentProcess w of
        Some p \<Rightarrow> trigger p w
      | None \<Rightarrow> (Return (), w))"

text \<open>
  The builtin \<open>println\<close> writes its operands to standard error, a space between two of
  them, as one line.
\<close>

fun spaced :: "string list \<Rightarrow> string" where
  "spaced [] = []"
| "spaced [x] = x"
| "spaced (x # y # ys) = x @ '' '' @ spaced (y # ys)"

definition println :: "string list \<Rightarrow> world \<Rightarrow> world" where
  "println args w = w\<lparr>stderr := stderr w @ [spaced args]\<rparr>"

text \<open>One call of the operating system: its answer, and the call added to the log.\<close>

definition syscall_do :: "syscall \<Rightarrow> world \<Rightarrow> (string \<times> error option) \<times> world" where
  "syscall_do c w = (os w (calls w) c, w\<lparr>calls := calls w @ [c]\<rparr>)"

definition syncCmd :: syscall where
  "syncCmd = Command ''sync'' []"

text \<open>
  \<open>move(dst, src)\<close>: \<open>os.Rename(src, dst)\<close>, then the command \<open>mv src dst\<close>, then the
  command \<open>sync\<close>, each with \<open>CombinedOutput\<close>.
\<close>

definition move :: "string \<Rightarrow> string \<Rightarrow> world \<Rightarrow> error option \<times> world" where
  "move dst src w =
     (let w1 = println [''move '', dst, '' ---> '', src] w in
      case syscall_do (Rename src dst) w1 of
        ((out, None), w2) \<Rightarrow> (None, w2)
      | ((out, Some err), w2) \<Rightarrow>
          (let w3 = println [''move error: '', errString err] w2 in
           case syscall_do (Command ''mv'' [src, dst]) w3 of
             ((data, Some err), w4) \<Rightarrow>
               (Some err,
                println [''mv comb output: '', data] (println [''mv error: '', errString err] w4))
           | ((data, None), w4) \<Rightarrow>
               (case syscall_do syncCmd w4 of
                  ((red, Some err), w5) \<Rightarrow>
                    (Some err,
                     println [''sync comb output: '', red]
                       (println [''sync error: '', errString err] w5))
                | ((red, None), w5) \<Rightarrow> (None, w5))))"

subsection \<open>Concrete inputs\<close>

text \<open>
  A world in which nothing has happened yet, with the given environment variables and
  the given operating system; environments, programs and configurations to run.
\<close>

definition world0 :: "(string \<Rightarrow> string) \<Rightarrow> (syscall list \<Rightarrow> syscall \<Rightarrow> string \<times> error option) \<Rightarrow> world" where
  "world0 env sys = \<lparr>environ = env, stdout = [], stderr = [], calls = [],
                     os = sys, GOOS = ''linux'', currentProcess = None\<rparr>"

definition env_none :: "string \<Rightarrow> string" where
  "env_none v = []"

definition env_check :: "string \<Rightarrow> string" where
  "env_check v = (if v = envBinCheck then ''tok'' else [])"

definition os_ok :: "syscall list \<Rightarrow> syscall \<Rightarrow> string \<times> error option" where
  "os_ok h c = ([], None)"

definition os_xdev :: "syscall list \<Rightarrow> syscall \<Rightarrow> string \<times> error option" where
  "os_xdev h c = (case c of Rename s d \<Rightarrow> ([], Some (Err ''invalid cross-device link''))
                  | Command n as \<Rightarrow> ([], None))"

definition prog_serve :: "State \<Rightarrow> world \<Rightarrow> unit outcome \<times> world" where
  "prog_serve st w = (Return (), w\<lparr>stdout := stdout w @ ''served''\<rparr>)"

definition run_idle :: "unit runner" where
  "run_idle p c w = (Return (None, c), w)"

definition trigger_panic :: "proc \<Rightarrow> world \<Rightarrow> unit outcome \<times> world" where
  "trigger_panic p w = (Panic, w\<lparr>stdout := stdout w @ ''restart''\<rparr>)"

definition config0 :: "unit Config" where
  "config0 = \<lparr>Required = False, Program = Some prog_serve, Address = [], Addresses = [],
              RestartSignal = None, TerminateTimeout = 0, MinFetchInterval = 0,
              PreUpgrade = None, Debug = False, NoWarn = False, NoRestart = False,
              NoRestartAfterFetch = False, Fetcher = None, Channel = [], Name = [],
              CurrentVersion = []\<rparr>"

definition config_single :: "unit Config" where
  "config_single = config0\<lparr>Address := ''127.0.0.1:9001''\<rparr>"

definition config_both :: "unit Config" where
  "config_both = config0\<lparr>Address := ''127.0.0.1:9001'', Addresses := [''127.0.0.1:9002'']\<rparr>"

definition config_both_nowarn :: "unit Config" where
  "config_both_nowarn = config_both\<lparr>NoWarn := True\<rparr>"


section \<open>graceful.go: listeners and connections\<close>

text \<open>
  What the \<open>net\<close> package gives. The wrapped \<open>net.Listener\<close> has a dynamic type, which is
  \<open>*net.TCPListener\<close> or something else. \<open>incoming\<close> is what the next accepts yield, an
  error or the descriptor of a new connection, and an accept with nothing incoming
  blocks; \<open>closeResult\<close> is the answer of the operating system to closing the socket and
  \<open>dupResult\<close> its answer to duplicating the descriptor. A closed listener and a closed
  connection answer every further call with the error of \<open>net.ErrClosed\<close>.
\<close>

datatype lkind = TCPListener | OtherListener

record tcpconn =
  fd :: nat
  keepAlive :: bool
  keepAlivePeriod :: Duration
  connClosed :: bool

record netListener =
  kind :: lkind
  incoming :: "(error + nat) list"
  closeResult :: "error option"
  dupResult :: "nat option"
  lclosed :: bool

definition errClosed :: error where
  "errClosed = Err ''use of closed network connection''"

definition AcceptTCP :: "netListener \<Rightarrow> ((error + tcpconn) \<times> netListener) option" where
  "AcceptTCP nl =
     (if lclosed nl then Some (Inl errClosed, nl)
      else case incoming nl of
        [] \<Rightarrow> None
      | Inl err # rest \<Rightarrow> Some (Inl err, nl\<lparr>incoming := rest\<rparr>)
      | Inr d # rest \<Rightarrow>
          Some (Inr \<lparr>fd = d, keepAlive = False, keepAlivePeriod = 0, connClosed = False\<rparr>,
                nl\<lparr>incoming := rest\<rparr>))"

definition netListenerClose :: "netListener \<Rightarrow> error option \<times> netListener" where
  "netListenerClose nl =
     (if lclosed nl then (Some errClosed, nl) else (closeResult nl, nl\<lparr>lclosed := True\<rparr>))"

definition netConnClose :: "tcpconn \<Rightarrow> error option \<times> tcpconn" where
  "netConnClose c =
     (if connClosed c then (Some errClosed, c) else (None, c\<lparr>connClosed := True\<rparr>))"

definition SetKeepAlive :: "bool \<Rightarrow> tcpconn \<Rightarrow> tcpconn" where
  "SetKeepAlive b c = c\<lparr>keepAlive := b\<rparr>"

definition SetKeepAlivePeriod :: "Duration \<Rightarrow> tcpconn \<Rightarrow> tcpconn" where
  "SetKeepAlivePeriod d c = c\<lparr>keepAlivePeriod := d\<rparr>"

text \<open>
  A \<open>simpleupdaterConn\<close> is the wrapped connection, the channel \<open>closed\<close> and the pointer to
  the wait group of its listener. With it lives its watcher goroutine, which is in its
  \<open>select\<close>, or has returned, or is blocked in the send of the \<open>Close\<close> it has called
  itself. Nothing but the watcher receives from \<open>closed\<close>, so the state of the channel is
  the number of other callers of \<open>Close\<close> that are blocked in their send.
\<close>

datatype watcher_pc = Selecting | Exited | Sending

record simpleupdaterConn =
  Conn :: tcpconn
  watcher :: watcher_pc
  senders :: nat

text \<open>
  One call of \<open>release\<close> starts two goroutines with the channel \<open>waited\<close> between them: the
  first is in \<open>wg.Wait()\<close>, then in its send, then done; the second is in its \<open>select\<close>
  or done.
\<close>

datatype waiter_pc = Waiting | Signalling | WaiterDone

datatype timer_pc = TimerSelecting | TimerDone

record releaser =
  timeout :: Duration
  waiter :: waiter_pc
  timer :: timer_pc

text \<open>
  The listener: the four fields of the struct (\<open>closeByForce\<close> is never sent on, so the
  channel is open or closed; \<open>wg\<close> is the counter of the wait group), the connections it
  has accepted, each known by its position, and the calls of \<open>release\<close> it has seen.
\<close>

record simpleupdaterListener =
  Listener :: netListener
  closeError :: "error option"
  closeByForce :: bool
  wg :: int
  conns :: "simpleupdaterConn list"
  releases :: "releaser list"

definition newsimpleupdaterListener :: "netListener \<Rightarrow> simpleupdaterListener" where
  "newsimpleupdaterListener l =
     \<lparr>Listener = l, closeError = None, closeByForce = False, wg = 0, conns = [], releases = []\<rparr>"

text \<open>
  \<open>Accept\<close>, as one step. The type assertion panics on a listener that is not a
  \<open>*net.TCPListener\<close>. The results of the two keep-alive calls are dropped by the source;
  here they take effect. The new connection is returned as its position.
\<close>

definition Accept :: "simpleupdaterListener \<Rightarrow> (error + nat) outcome \<times> simpleupdaterListener" where
  "Accept l =
     (if kind (Listener l) \<noteq> TCPListener then (Panic, l)
      else case AcceptTCP (Listener l) of
        None \<Rightarrow> (Block, l)
      | Some (Inl err, nl) \<Rightarrow> (Return (Inl err), l\<lparr>Listener := nl\<rparr>)
      | Some (Inr conn, nl) \<Rightarrow>
          (let conn1 = SetKeepAlive True conn;
               conn2 = SetKeepAlivePeriod (3 * Minute) conn1;
               uconn = \<lparr>Conn = conn2, watcher = Selecting, senders = 0\<rparr>
           in (Return (Inr (length (conns l))),
               l\<lparr>Listener := nl, conns := conns l @ [uconn], wg := wg l + 1\<rparr>)))"

text \<open>
  \<open>release\<close>: the timeout is kept with the two goroutines. Time is not measured: the
  moment at which the second goroutine takes the branch of \<open>time.After\<close> is a step of
  its own below, which can come at any point after the call.
\<close>

definition release :: "Duration \<Rightarrow> simpleupdaterListener \<Rightarrow> simpleupdaterListener" where
  "release d l =
     (case netListenerClose (Listener l) of
        (err, nl) \<Rightarrow>
          l\<lparr>Listener := nl, closeError := err,
            releases := releases l @ [\<lparr>timeout = d, waiter = Waiting, timer = TimerSelecting\<rparr>]\<rparr>)"

text \<open>The blocking \<open>Close\<close> of the listener: \<open>wg.Wait()\<close> returns when the counter is 0.\<close>

definition Close :: "simpleupdaterListener \<Rightarrow> error option outcome" where
  "Close l = (if wg l = 0 then Return (closeError l) else Block)"

definition File :: "simpleupdaterListener \<Rightarrow> nat option outcome" where
  "File l =
     (if kind (Listener l) \<noteq> TCPListener then Panic
      else Return (if lclosed (Listener l) then None else dupResult (Listener l)))"

text \<open>
  \<open>Close\<close> of the connection at position \<open>i\<close>, which is the position of an accepted
  connection wherever the steps below call it, up to its send: an error of the wrapped
  connection is returned at once; otherwise \<open>wg.Done()\<close> runs, which panics on a negative
  counter, and the caller is at \<open>o.closed <- true\<close>, which is the outcome \<open>Block\<close>.
\<close>

definition simpleupdaterConn_Close :: "nat \<Rightarrow> simpleupdaterListener \<Rightarrow> error option outcome \<times> simpleupdaterListener" where
  "simpleupdaterConn_Close i l =
     (case netConnClose (Conn (conns l ! i)) of
        (Some err, c) \<Rightarrow> (Return (Some err), l)
      | (None, c) \<Rightarrow>
          (let l1 = l\<lparr>conns := (conns l)[i := (conns l ! i)\<lparr>Conn := c\<rparr>]\<rparr> in
           if wg l1 - 1 < 0 then (Panic, l1) else (Block, l1\<lparr>wg := wg l1 - 1\<rparr>)))"

text \<open>
  The steps of the goroutines. A goroutine calls \<open>Accept\<close>; a goroutine other than the
  watcher calls \<open>Close\<close> on a connection and returns with the error or stays in the send;
  a watcher takes one of the two branches of its \<open>select\<close>, the receive from a sender
  (whose \<open>Close\<close> then returns nil) or the closed \<open>closeByForce\<close> (and then calls
  \<open>Close\<close> itself); \<open>release\<close> is called; the \<open>wg.Wait()\<close> of a release returns; its timer
  goroutine takes \<open>waited\<close>, or the timeout, closing \<open>closeByForce\<close>, which panics on a
  closed channel. A step that is not possible in a state has the outcome \<open>Block\<close>.
\<close>

datatype event =
    EvAccept
  | EvClose nat
  | EvWatcherClosed nat
  | EvWatcherForce nat
  | EvRelease Duration
  | EvWaited nat
  | EvTimerWaited nat
  | EvTimeout nat

definition setConn :: "nat \<Rightarrow> (simpleupdaterConn \<Rightarrow> simpleupdaterConn) \<Rightarrow> simpleupdaterListener \<Rightarrow> simpleupdaterListener" where
  "setConn i f l = l\<lparr>conns := (conns l)[i := f (conns l ! i)]\<rparr>"

definition setRelease :: "nat \<Rightarrow> (releaser \<Rightarrow> releaser) \<Rightarrow> simpleupdaterListener \<Rightarrow> simpleupdaterListener" where
  "setRelease k f l = l\<lparr>releases := (releases l)[k := f (releases l ! k)]\<rparr>"

fun step :: "event \<Rightarrow> simpleupdaterListener \<Rightarrow> simpleupdaterListener outcome" where
  "step EvAccept l =
     (case Accept l of
        (Return r, l1) \<Rightarrow> Return l1
      | (Exit n, l1) \<Rightarrow> Exit n
      | (Panic, l1) \<Rightarrow> Panic
      | (Block, l1) \<Rightarrow> Block)"
| "step (EvClose i) l =
     (if i < length (conns l) then
        (case simpleupdaterConn_Close i l of
           (Return err, l1) \<Rightarrow> Return l1
         | (Block, l1) \<Rightarrow> Return (setConn i (\<lambda>u. u\<lparr>senders := senders u + 1\<rparr>) l1)
         | (Exit n, l1) \<Rightarrow> Exit n
         | (Panic, l1) \<Rightarrow> Panic)
      else Block)"
| "step (EvWatcherClosed i) l =
     (if i < length (conns l) \<and> watcher (conns l ! i) = Selecting \<and> 0 < senders (conns l ! i)
      then Return (setConn i (\<lambda>u. u\<lparr>watcher := Exited, senders := senders u - 1\<rparr>) l)
      else Block)"
| "step (EvWatcherForce i) l =
     (if i < length (conns l) \<and> watcher (conns l ! i) = Selecting \<and> closeByForce l then
        (case simpleupdaterConn_Close i l of
           (Return err, l1) \<Rightarrow> Return (setConn i (\<lambda>u. u\<lparr>watcher := Exited\<rparr>) l1)
         | (Block, l1) \<Rightarrow> Return (setConn i (\<lambda>u. u\<lparr>watcher := Sending\<rparr>) l1)
         | (Exit n, l1) \<Rightarrow> Exit n
         | (Panic, l1) \<Rightarrow> Panic)
      else Block)"
| "step (EvRelease d) l = Return (release d l)"
| "step (EvWaited k) l =
     (if k < length (releases l) \<and> waiter (releases l ! k) = Waiting \<and> wg l = 0
      then Return (setRelease k (\<lambda>r. r\<lparr>waiter := Signalling\<rparr>) l)
      else Block)"
| "step (EvTimerWaited k) l =
     (if k < length (releases l) \<and> timer (releases l ! k) = TimerSelecting
         \<and> waiter (releases l ! k) = Signalling
      then Return (setRelease k (\<lambda>r. r\<lparr>waiter := WaiterDone, timer := TimerDone\<rparr>) l)
      else Block)"
| "step (EvTimeout k) l =
     (if k < length (releases l) \<and> timer (releases l ! k) = TimerSelecting then
        (if closeByForce l then Panic
         else Return (setRelease k (\<lambda>r. r\<lparr>timer := TimerDone\<rparr>) (l\<lparr>closeByForce := True\<rparr>)))
      else Block)"

fun steps :: "event list \<Rightarrow> simpleupdaterListener \<Rightarrow> simpleupdaterListener outcome" where
  "steps [] l = Return l"
| "steps (e # es) l =
     (case step e l of
        Return l1 \<Rightarrow> steps es l1
      | Exit n \<Rightarrow> Exit n
      | Panic \<Rightarrow> Panic
      | Block \<Rightarrow> Block)"

text \<open>
  The connections whose socket is open, and the connections closed by force: those whose
  watcher took the branch of \<open>closeByForce\<close> and closed the socket itself, which leaves it
  in the send.
\<close>

definition open_conns :: "simpleupdaterListener \<Rightarrow> nat list" where
  "open_conns l = filter (\<lambda>i. \<not> connClosed (Conn (conns l ! i))) [0..<length (conns l)]"

definition forced :: "simpleupdaterListener \<Rightarrow> nat list" where
  "forced l = filter (\<lambda>i. watcher (conns l ! i) = Sending) [0..<length (conns l)]"

text \<open>
  The callers close the given connections one after the other, each \<open>Close\<close> returning
  when the watcher has received.
\<close>

definition close_all :: "nat list \<Rightarrow> event list" where
  "close_all ds = concat (map (\<lambda>i. [EvClose i, EvWatcherClosed i]) ds)"

text \<open>Listeners to run: over TCP with two connections coming in, and one that is not TCP.\<close>

definition tcp2 :: netListener where
  "tcp2 = \<lparr>kind = TCPListener, incoming = [Inr 7, Inr 8],
           closeResult = Some (Err ''close tcp 127.0.0.1:9001: input/output error''),
           dupResult = Some 9, lclosed = False\<rparr>"

definition fake :: netListener where
  "fake = \<lparr>kind = OtherListener, incoming = [Inr 7], closeResult = None,
           dupResult = Some 9, lclosed = False\<rparr>"

text \<open>
  What holds of every state a listener can reach. A connection is in one of five states:
  open, with its watcher in the \<open>select\<close>; closed by a caller that is in its send, the
  watcher still in the \<open>select\<close>; closed, the caller back and the watcher gone; closed by
  force, the watcher in its own send; closed by a caller that stays in its send because
  the watcher left through \<open>closeByForce\<close>. The last two need the channel closed. The
  counter of the wait group is the number of open connections, \<open>closeByForce\<close> is closed
  only after a \<open>release\<close>, and after a \<open>release\<close> the socket of the listener is closed.
\<close>

definition conn_ok :: "bool \<Rightarrow> simpleupdaterConn \<Rightarrow> bool" where
  "conn_ok fc u =
     (if connClosed (Conn u) then
        (watcher u = Selecting \<and> senders u = 1) \<or>
        (watcher u = Exited \<and> senders u = 0) \<or>
        (fc \<and> watcher u = Sending \<and> senders u = 0) \<or>
        (fc \<and> watcher u = Exited \<and> senders u = 1)
      else watcher u = Selecting \<and> senders u = 0)"

definition wf_listener :: "simpleupdaterListener \<Rightarrow> bool" where
  "wf_listener l \<longleftrightarrow>
     wg l = int (length (filter (\<lambda>u. \<not> connClosed (Conn u)) (conns l))) \<and>
     list_all (conn_ok (closeByForce l)) (conns l) \<and>
     (closeByForce l \<longrightarrow> releases l \<noteq> []) \<and>
     (releases l \<noteq> [] \<longrightarrow> lclosed (Listener l))"

section \<open>Configuration validation\<close>

lemma sint_Second [simp]: "sint Second = 1000000000"
  by (simp add: Second_def)

lemma sint_30_Second [simp]: "sint (30 * Second) = 30000000000"
  by (simp add: Second_def)

lemma validate_no_program:
  "Program c = None \<Longrightarrow> validate c = (Some (Err ''simpleupdater.Config.Program required''), c)"
  by (simp add: validate_def)

lemma validate_both:
  "Program c \<noteq> None \<Longrightarrow> Address c \<noteq> [] \<Longrightarrow> Addresses c \<noteq> [] \<Longrightarrow>
     validate c = (Some (Err ''simpleupdater.Config.Address and Addresses cant both be set''), c)"
  by (simp add: validate_def)

lemma validate_single:
  "Program c \<noteq> None \<Longrightarrow> Address c \<noteq> [] \<Longrightarrow> Addresses c = [] \<Longrightarrow>
     validate c = (None, c\<lparr>Addresses := [Address c],
       RestartSignal := Some (case RestartSignal c of None \<Rightarrow> SIGUSR2 | Some sg \<Rightarrow> sg),
       TerminateTimeout := (if sint (TerminateTimeout c) \<le> 0 then 30 * Second else TerminateTimeout c),
       MinFetchInterval := (if sint (MinFetchInterval c) \<le> 0 then 1 * Second else MinFetchInterval c)\<rparr>)"
  by (cases "RestartSignal c") (simp_all add: validate_def Let_def)

lemma validate_multi:
  "Program c \<noteq> None \<Longrightarrow> Address c = [] \<Longrightarrow>
     validate c = (None, c\<lparr>Address := (if Addresses c \<noteq> [] then hd (Addresses c) else []),
       RestartSignal := Some (case RestartSignal c of None \<Rightarrow> SIGUSR2 | Some sg \<Rightarrow> sg),
       TerminateTimeout := (if sint (TerminateTimeout c) \<le> 0 then 30 * Second else TerminateTimeout c),
       MinFetchInterval := (if sint (MinFetchInterval c) \<le> 0 then 1 * Second else MinFetchInterval c)\<rparr>)"
  by (cases "RestartSignal c") (simp_all add: validate_def Let_def)

text \<open>
  C4, as amended. \<open>validate\<close> returns an error exactly when the program is missing or both
  address forms are set, and then leaves the configuration alone. On success the address
  list is the single address when that was set and the caller's list otherwise, so it is
  populated exactly when the caller set one of the two forms; the restart signal, the
  terminate timeout and the minimum fetch interval keep a set value and get SIGUSR2,
  30 seconds and 1 second when unset (nil, or not positive).
\<close>

theorem validate_contract:
  "validate c = (r, c') \<Longrightarrow>
     (r \<noteq> None \<longleftrightarrow> Program c = None \<or> (Address c \<noteq> [] \<and> Addresses c \<noteq> [])) \<and>
     (r \<noteq> None \<longrightarrow> c' = c) \<and>
     (r = None \<longrightarrow>
        Addresses c' = (if Address c \<noteq> [] then [Address c] else Addresses c) \<and>
        (Addresses c' \<noteq> [] \<longleftrightarrow> Address c \<noteq> [] \<or> Addresses c \<noteq> []) \<and>
        RestartSignal c' = Some (case RestartSignal c of None \<Rightarrow> SIGUSR2 | Some sg \<Rightarrow> sg) \<and>
        TerminateTimeout c' =
          (if sint (TerminateTimeout c) \<le> 0 then 30 * Second else TerminateTimeout c) \<and>
        MinFetchInterval c' =
          (if sint (MinFetchInterval c) \<le> 0 then 1 * Second else MinFetchInterval c) \<and>
        0 < sint (TerminateTimeout c') \<and> 0 < sint (MinFetchInterval c') \<and>
        Program c' = Program c \<and> Required c' = Required c)"
proof -
  assume v: "validate c = (r, c')"
  consider (noprog) "Program c = None"
    | (both) "Program c \<noteq> None" "Address c \<noteq> []" "Addresses c \<noteq> []"
    | (single) "Program c \<noteq> None" "Address c \<noteq> []" "Addresses c = []"
    | (multi) "Program c \<noteq> None" "Address c = []"
    by blast
  then show ?thesis
  proof cases
    case noprog
    from validate_no_program [OF noprog] v noprog show ?thesis by simp
  next
    case both
    from validate_both [OF both] v both show ?thesis by simp
  next
    case single
    from validate_single [OF single] v single show ?thesis by auto
  next
    case multi
    from validate_multi [OF multi] v multi show ?thesis by auto
  qed
qed

theorem validate_contract_witness:
  "validate (config_single) =
     (None, config_single\<lparr>Addresses := [''127.0.0.1:9001''],
                     RestartSignal := Some SIGUSR2, TerminateTimeout := 30 * Second,
                     MinFetchInterval := 1 * Second\<rparr>) \<and>
   Addresses (snd (validate (config_single))) = [''127.0.0.1:9001'']"
proof -
  have ev: "validate (config_single) =
     (None, config_single\<lparr>Addresses := [''127.0.0.1:9001''],
                     RestartSignal := Some SIGUSR2, TerminateTimeout := 30 * Second,
                     MinFetchInterval := 1 * Second\<rparr>)"
    by (simp add: validate_def config_single_def config0_def Let_def)
  from validate_contract [OF ev] have
    "Addresses (config_single\<lparr>Addresses := [''127.0.0.1:9001''],
                     RestartSignal := Some SIGUSR2, TerminateTimeout := 30 * Second,
                     MinFetchInterval := 1 * Second\<rparr>) = [''127.0.0.1:9001'']"
    by simp
  with ev show ?thesis by simp
qed

text \<open>
  The claim as stated fails for a caller that sets neither address form: validation
  succeeds and the address list stays empty.
\<close>

theorem validate_no_address_counterexample:
  "fst (validate config0) = None \<and> Addresses (snd (validate config0)) = []"
  by (simp add: validate_def config0_def Let_def)

section \<open>The sanity check\<close>

text \<open>
  C5, as amended. With the check variable set to a non-empty token, \<open>SanityCheck\<close> writes
  the token to standard output and exits with status 0, and so does \<open>Run\<close> for a
  configuration that passes validation; nothing else of the process changes,
  \<open>currentProcess\<close> stays as it was and neither the master nor the slave is run, whatever
  they would do.
\<close>

theorem sanity_check_exits:
  "environ w envBinCheck = token \<Longrightarrow> token \<noteq> [] \<Longrightarrow>
     SanityCheck w = (Exit 0, w\<lparr>stdout := stdout w @ token\<rparr>) \<and>
     (fst (validate c) = None \<longrightarrow> Run run c w = (Exit 0, w\<lparr>stdout := stdout w @ token\<rparr>))"
  by (auto simp: SanityCheck_def Run_def runErr_def sanityCheck_def supported_def Let_def
           split: prod.splits option.splits)

theorem sanity_check_exits_witness:
  "environ (world0 env_check os_ok) envBinCheck = ''tok'' \<and>
   fst (validate config0) = None \<and>
   Run run_idle config0 (world0 env_check os_ok)
     = (Exit 0, (world0 env_check os_ok)\<lparr>stdout := ''tok''\<rparr>)"
proof -
  have e: "environ (world0 env_check os_ok) envBinCheck = ''tok''"
    by (simp add: world0_def env_check_def)
  have t: "''tok'' \<noteq> []" by simp
  have v: "fst (validate config0) = None"
    by (simp add: validate_def config0_def Let_def)
  from sanity_check_exits [OF e t, of config0 run_idle, THEN conjunct2, rule_format, OF v]
  have "Run run_idle config0 (world0 env_check os_ok)
     = (Exit 0, (world0 env_check os_ok)\<lparr>stdout := stdout (world0 env_check os_ok) @ ''tok''\<rparr>)" .
  with e v show ?thesis by (simp add: world0_def)
qed

text \<open>
  The claim as stated fails for a configuration that validation rejects: \<open>runErr\<close>
  validates before it looks at the check variable. With both address forms set the
  token is not written, the program is run in the process and \<open>Run\<close> returns.
\<close>

theorem sanity_check_invalid_config_counterexample:
  "environ (world0 env_check os_ok) envBinCheck = ''tok'' \<and>
   fst (Run run_idle config_both_nowarn (world0 env_check os_ok)) = Return () \<and>
   stdout (snd (Run run_idle config_both_nowarn (world0 env_check os_ok))) = ''served''"
  by (simp add: Run_def runErr_def supported_def validate_def config_both_nowarn_def
        config_both_def config0_def world0_def env_check_def prog_serve_def)

section \<open>Installing a binary\<close>

text \<open>
  C6. \<open>move\<close> first renames the staged file over the destination and returns nil when
  that succeeds, having made no other call. When the rename fails it runs \<open>mv\<close>; when
  \<open>mv\<close> fails its error is returned and \<open>sync\<close> is not run; when \<open>mv\<close> succeeds \<open>sync\<close>
  is run after it and its result is the result. So an error is returned exactly when the
  rename failed and then \<open>mv\<close> or \<open>sync\<close> failed.
\<close>

theorem move_contract:
  "move dst src w = (r, w') \<Longrightarrow>
   rn = snd (os w (calls w) (Rename src dst)) \<Longrightarrow>
   mv = snd (os w (calls w @ [Rename src dst]) (Command ''mv'' [src, dst])) \<Longrightarrow>
   sy = snd (os w (calls w @ [Rename src dst, Command ''mv'' [src, dst]]) (Command ''sync'' [])) \<Longrightarrow>
     (rn = None \<longrightarrow> r = None \<and> calls w' = calls w @ [Rename src dst]) \<and>
     (rn \<noteq> None \<and> mv \<noteq> None \<longrightarrow>
        r = mv \<and> calls w' = calls w @ [Rename src dst, Command ''mv'' [src, dst]]) \<and>
     (rn \<noteq> None \<and> mv = None \<longrightarrow>
        r = sy \<and>
        calls w' = calls w @ [Rename src dst, Command ''mv'' [src, dst], Command ''sync'' []]) \<and>
     (r \<noteq> None \<longleftrightarrow> rn \<noteq> None \<and> (mv \<noteq> None \<or> sy \<noteq> None)) \<and>
     stdout w' = stdout w \<and> environ w' = environ w \<and> currentProcess w' = currentProcess w"
  by (auto simp: move_def syscall_do_def println_def syncCmd_def Let_def
           split: prod.splits option.splits)

theorem move_contract_witness:
  "move ''/usr/bin/app'' ''/tmp/app.new'' (world0 env_none os_xdev)
     = (None, (world0 env_none os_xdev)
          \<lparr>stderr := [''move  /usr/bin/app  --->  /tmp/app.new'',
                      ''move error:  invalid cross-device link''],
           calls := [Rename ''/tmp/app.new'' ''/usr/bin/app'',
                     Command ''mv'' [''/tmp/app.new'', ''/usr/bin/app''],
                     Command ''sync'' []]\<rparr>) \<and>
   calls (snd (move ''/usr/bin/app'' ''/tmp/app.new'' (world0 env_none os_xdev)))
     = [Rename ''/tmp/app.new'' ''/usr/bin/app'',
        Command ''mv'' [''/tmp/app.new'', ''/usr/bin/app''], Command ''sync'' []]"
proof -
  have ev: "move ''/usr/bin/app'' ''/tmp/app.new'' (world0 env_none os_xdev)
     = (None, (world0 env_none os_xdev)
          \<lparr>stderr := [''move  /usr/bin/app  --->  /tmp/app.new'',
                      ''move error:  invalid cross-device link''],
           calls := [Rename ''/tmp/app.new'' ''/usr/bin/app'',
                     Command ''mv'' [''/tmp/app.new'', ''/usr/bin/app''],
                     Command ''sync'' []]\<rparr>)"
    by (simp add: move_def syscall_do_def println_def syncCmd_def world0_def os_xdev_def
        errString_def)
  have rn: "snd (os (world0 env_none os_xdev) (calls (world0 env_none os_xdev))
                  (Rename ''/tmp/app.new'' ''/usr/bin/app'')) \<noteq> None"
    by (simp add: world0_def os_xdev_def)
  have mv: "snd (os (world0 env_none os_xdev)
                  (calls (world0 env_none os_xdev) @ [Rename ''/tmp/app.new'' ''/usr/bin/app''])
                  (Command ''mv'' [''/tmp/app.new'', ''/usr/bin/app''])) = None"
    by (simp add: world0_def os_xdev_def)
  from move_contract [OF ev refl refl refl] rn mv
  have "calls ((world0 env_none os_xdev)
          \<lparr>stderr := [''move  /usr/bin/app  --->  /tmp/app.new'',
                      ''move error:  invalid cross-device link''],
           calls := [Rename ''/tmp/app.new'' ''/usr/bin/app'',
                     Command ''mv'' [''/tmp/app.new'', ''/usr/bin/app''],
                     Command ''sync'' []]\<rparr>)
     = calls (world0 env_none os_xdev) @ [Rename ''/tmp/app.new'' ''/usr/bin/app'',
        Command ''mv'' [''/tmp/app.new'', ''/usr/bin/app''], Command ''sync'' []]"
    by blast
  with ev show ?thesis by (simp add: world0_def)
qed

section \<open>Errors of the top-level run\<close>

text \<open>
  C7, as amended. When \<open>runErr\<close> returns an error: with \<open>Required\<close> set the error is logged
  and the process exits with status 1; otherwise the warning is logged when \<open>Debug\<close> is set
  or \<open>NoWarn\<close> is not, and a configuration that has a program runs it in the process with
  the disabled state, \<open>Run\<close> returning when the program does.
\<close>

theorem Run_error_handling:
  "runErr run c w = (Return (Some err, c1), w1) \<Longrightarrow>
     (Required c1 \<longrightarrow>
        Run run c w = (Exit 1, w1\<lparr>stderr := stderr w1 @ [''[simpleupdater] '' @ errString err]\<rparr>)) \<and>
     (\<not> Required c1 \<longrightarrow> Program c1 = Some program \<longrightarrow>
        Run run c w =
          (case program DisabledState
                  (if Debug c1 \<or> \<not> NoWarn c1
                   then w1\<lparr>stderr := stderr w1 @
                          [''[simpleupdater] disabled. run failed: '' @ errString err]\<rparr>
                   else w1) of
             (Return u, w3) \<Rightarrow> (Return (), w3)
           | (out, w3) \<Rightarrow> (out, w3)))"
  by (simp add: Run_def Let_def)

theorem Run_error_handling_witness:
  "runErr run_idle config_both (world0 env_none os_ok)
     = (Return (Some (Err ''simpleupdater.Config.Address and Addresses cant both be set''),
                config_both), world0 env_none os_ok) \<and>
   Run run_idle config_both (world0 env_none os_ok)
     = (Return (), (world0 env_none os_ok)
          \<lparr>stdout := ''served'',
           stderr := [''[simpleupdater] disabled. run failed: simpleupdater.Config.Address and Addresses cant both be set'']\<rparr>)"
proof -
  have r: "runErr run_idle config_both (world0 env_none os_ok)
     = (Return (Some (Err ''simpleupdater.Config.Address and Addresses cant both be set''),
                config_both), world0 env_none os_ok)"
    by (simp add: runErr_def supported_def validate_def config_both_def config0_def)
  have nr: "\<not> Required config_both" and p: "Program config_both = Some prog_serve"
    by (simp_all add: config_both_def config0_def)
  from Run_error_handling [OF r, THEN conjunct2, rule_format, OF nr p]
  have "Run run_idle config_both (world0 env_none os_ok)
     = (Return (), (world0 env_none os_ok)
          \<lparr>stdout := ''served'',
           stderr := [''[simpleupdater] disabled. run failed: simpleupdater.Config.Address and Addresses cant both be set'']\<rparr>)"
    by (simp add: config_both_def config0_def world0_def prog_serve_def errString_def)
  with r show ?thesis by simp
qed

text \<open>
  The claim as stated fails when warnings are switched off: the run fails, nothing is
  reported, and the program runs all the same.
\<close>

theorem Run_nowarn_counterexample:
  "fst (runErr run_idle config_both_nowarn (world0 env_none os_ok))
     = Return (Some (Err ''simpleupdater.Config.Address and Addresses cant both be set''),
               config_both_nowarn) \<and>
   fst (Run run_idle config_both_nowarn (world0 env_none os_ok)) = Return () \<and>
   stdout (snd (Run run_idle config_both_nowarn (world0 env_none os_ok))) = ''served'' \<and>
   stderr (snd (Run run_idle config_both_nowarn (world0 env_none os_ok))) = []"
  by (simp add: Run_def runErr_def supported_def validate_def config_both_nowarn_def
        config_both_def config0_def world0_def env_none_def prog_serve_def)

section \<open>Restart before any process was started\<close>

text \<open>
  C10. While \<open>currentProcess\<close> is unset, \<open>Restart\<close> returns without panicking and leaves
  the whole state as it was, whatever \<open>triggerRestart\<close> would do.
\<close>

theorem Restart_unset_noop:
  "currentProcess w = None \<Longrightarrow> Restart trigger w = (Return (), w)"
  by (simp add: Restart_def)

theorem Restart_unset_noop_witness:
  "currentProcess (world0 env_none os_ok) = None \<and>
   Restart trigger_panic (world0 env_none os_ok) = (Return (), world0 env_none os_ok)"
proof -
  have c: "currentProcess (world0 env_none os_ok) = None" by (simp add: world0_def)
  from Restart_unset_noop [OF c, of trigger_panic] c show ?thesis by simp
qed

section \<open>Reachable states of a listener\<close>

lemma filter_update_count:
  "i < length xs \<Longrightarrow>
     int (length (filter P (xs[i := y]))) =
       int (length (filter P xs)) - (if P (xs ! i) then 1 else 0) + (if P y then 1 else 0)"
proof (induction xs arbitrary: i)
  case Nil
  then show ?case by simp
next
  case (Cons x xs)
  show ?case
  proof (cases i)
    case 0
    then show ?thesis by simp
  next
    case (Suc j)
    with Cons.prems have "j < length xs" by simp
    from Cons.IH [OF this] Suc show ?thesis by (auto split: if_splits)
  qed
qed

lemma list_all_update:
  "list_all P xs \<Longrightarrow> P y \<Longrightarrow> list_all P (xs[i := y])"
  by (induction xs arbitrary: i) (auto split: nat.splits)

lemma list_all_nth: "list_all P xs \<Longrightarrow> i < length xs \<Longrightarrow> P (xs ! i)"
  by (simp add: list_all_length)

lemma conn_ok_mono: "conn_ok fc u \<Longrightarrow> conn_ok True u"
  by (auto simp: conn_ok_def split: if_splits)

lemma list_all_conn_ok_mono: "list_all (conn_ok fc) us \<Longrightarrow> list_all (conn_ok True) us"
  by (induction us) (auto intro: conn_ok_mono)

lemma simpleupdaterConn_Close_closed:
  "connClosed (Conn (conns l ! i)) \<Longrightarrow> simpleupdaterConn_Close i l = (Return (Some errClosed), l)"
  by (simp add: simpleupdaterConn_Close_def netConnClose_def)

lemma simpleupdaterConn_Close_open:
  "\<not> connClosed (Conn (conns l ! i)) \<Longrightarrow> 0 < wg l \<Longrightarrow>
     simpleupdaterConn_Close i l =
       (Block, l\<lparr>conns := (conns l)[i := (conns l ! i)\<lparr>Conn := (Conn (conns l ! i))\<lparr>connClosed := True\<rparr>\<rparr>],
                 wg := wg l - 1\<rparr>)"
  by (simp add: simpleupdaterConn_Close_def netConnClose_def Let_def)

lemma wf_open_wg_pos:
  "wf_listener l \<Longrightarrow> i < length (conns l) \<Longrightarrow> \<not> connClosed (Conn (conns l ! i)) \<Longrightarrow> 0 < wg l"
proof -
  assume w: "wf_listener l" and i: "i < length (conns l)" and o: "\<not> connClosed (Conn (conns l ! i))"
  from i o have "conns l ! i \<in> set (filter (\<lambda>u. \<not> connClosed (Conn u)) (conns l))" by simp
  then have "filter (\<lambda>u. \<not> connClosed (Conn u)) (conns l) \<noteq> []" by force
  with w show ?thesis by (simp add: wf_listener_def)
qed

lemma wf_update_same:
  assumes "wf_listener l" "i < length (conns l)" "conn_ok (closeByForce l) u"
    and "connClosed (Conn u) = connClosed (Conn (conns l ! i))"
  shows "wf_listener (l\<lparr>conns := (conns l)[i := u]\<rparr>)"
  using assms by (simp add: wf_listener_def filter_update_count list_all_update)

lemma wf_update_close:
  assumes "wf_listener l" "i < length (conns l)" "conn_ok (closeByForce l) u"
    and "connClosed (Conn u)" "\<not> connClosed (Conn (conns l ! i))"
  shows "wf_listener (l\<lparr>conns := (conns l)[i := u], wg := wg l - 1\<rparr>)"
  using assms by (simp add: wf_listener_def filter_update_count list_all_update)

lemma wf_new: "wf_listener (newsimpleupdaterListener nl)"
  by (simp add: wf_listener_def newsimpleupdaterListener_def)

lemma Accept_wf:
  assumes "wf_listener l" "Accept l = (Return r, l')"
  shows "wf_listener l'"
  using assms
  by (auto simp: Accept_def AcceptTCP_def wf_listener_def conn_ok_def SetKeepAlive_def
        SetKeepAlivePeriod_def Let_def
      split: if_splits option.splits list.splits sum.splits)

lemma release_wf: "wf_listener l \<Longrightarrow> wf_listener (release d l)"
  by (auto simp: release_def netListenerClose_def wf_listener_def split: if_splits)

lemma step_Close_wf:
  assumes w: "wf_listener l" and s: "step (EvClose i) l = Return l'"
  shows "wf_listener l'"
proof -
  from s have i: "i < length (conns l)" by (simp split: if_splits)
  from w i have ok: "conn_ok (closeByForce l) (conns l ! i)"
    by (simp add: wf_listener_def list_all_nth)
  show ?thesis
  proof (cases "connClosed (Conn (conns l ! i))")
    case True
    with s i have "l' = l" by (simp add: simpleupdaterConn_Close_closed)
    with w show ?thesis by simp
  next
    case False
    from wf_open_wg_pos [OF w i False] have pos: "0 < wg l" .
    let ?u = "(conns l ! i)\<lparr>Conn := (Conn (conns l ! i))\<lparr>connClosed := True\<rparr>, senders := senders (conns l ! i) + 1\<rparr>"
    from s i False pos have l': "l' = l\<lparr>conns := (conns l)[i := ?u], wg := wg l - 1\<rparr>"
      by (auto simp: simpleupdaterConn_Close_open setConn_def)
    from ok False have "conn_ok (closeByForce l) ?u" by (simp add: conn_ok_def)
    from wf_update_close [OF w i this _ False] l' show ?thesis by simp
  qed
qed

lemma step_WatcherClosed_wf:
  assumes w: "wf_listener l" and s: "step (EvWatcherClosed i) l = Return l'"
  shows "wf_listener l'"
proof -
  from s have i: "i < length (conns l)" and sel: "watcher (conns l ! i) = Selecting"
    and sn: "0 < senders (conns l ! i)"
    by (simp_all split: if_splits)
  from w i have ok: "conn_ok (closeByForce l) (conns l ! i)"
    by (simp add: wf_listener_def list_all_nth)
  let ?u = "(conns l ! i)\<lparr>watcher := Exited, senders := senders (conns l ! i) - 1\<rparr>"
  from s i sel sn have l': "l' = l\<lparr>conns := (conns l)[i := ?u]\<rparr>"
    by (simp add: setConn_def)
  from ok sel sn have "conn_ok (closeByForce l) ?u"
    by (auto simp: conn_ok_def split: if_splits)
  from wf_update_same [OF w i this] l' show ?thesis by simp
qed

lemma step_WatcherForce_wf:
  assumes w: "wf_listener l" and s: "step (EvWatcherForce i) l = Return l'"
  shows "wf_listener l'"
proof -
  from s have i: "i < length (conns l)" and sel: "watcher (conns l ! i) = Selecting"
    and fc: "closeByForce l"
    by (simp_all split: if_splits)
  from w i have ok: "conn_ok (closeByForce l) (conns l ! i)"
    by (simp add: wf_listener_def list_all_nth)
  show ?thesis
  proof (cases "connClosed (Conn (conns l ! i))")
    case True
    let ?u = "(conns l ! i)\<lparr>watcher := Exited\<rparr>"
    from s i sel fc True have l': "l' = l\<lparr>conns := (conns l)[i := ?u]\<rparr>"
      by (simp add: simpleupdaterConn_Close_closed setConn_def)
    from ok sel fc True have "conn_ok (closeByForce l) ?u"
      by (auto simp: conn_ok_def split: if_splits)
    from wf_update_same [OF w i this] l' show ?thesis by simp
  next
    case False
    from wf_open_wg_pos [OF w i False] have pos: "0 < wg l" .
    let ?u = "(conns l ! i)\<lparr>Conn := (Conn (conns l ! i))\<lparr>connClosed := True\<rparr>, watcher := Sending\<rparr>"
    from s i sel fc False pos have l': "l' = l\<lparr>conns := (conns l)[i := ?u], wg := wg l - 1\<rparr>"
      by (auto simp: simpleupdaterConn_Close_open setConn_def)
    from ok False fc have "conn_ok (closeByForce l) ?u" by (simp add: conn_ok_def)
    from wf_update_close [OF w i this _ False] l' show ?thesis by simp
  qed
qed

lemma step_releases_wf:
  assumes w: "wf_listener l"
  shows "step (EvWaited k) l = Return l' \<Longrightarrow> wf_listener l'"
    and "step (EvTimerWaited k) l = Return l' \<Longrightarrow> wf_listener l'"
    and "step (EvTimeout k) l = Return l' \<Longrightarrow> wf_listener l'"
  using w
  by (auto simp: wf_listener_def setRelease_def list_all_conn_ok_mono split: if_splits)

lemma step_wf: "wf_listener l \<Longrightarrow> step e l = Return l' \<Longrightarrow> wf_listener l'"
proof (cases e)
  case EvAccept
  assume "wf_listener l" "step e l = Return l'"
  with EvAccept show ?thesis
    by (auto split: prod.splits outcome.splits elim: Accept_wf)
next
  case (EvRelease d)
  assume "wf_listener l" "step e l = Return l'"
  with EvRelease show ?thesis by (auto simp: release_wf)
qed (auto intro: step_Close_wf step_WatcherClosed_wf step_WatcherForce_wf step_releases_wf)

lemma steps_wf: "wf_listener l \<Longrightarrow> steps es l = Return l' \<Longrightarrow> wf_listener l'"
proof (induction es arbitrary: l)
  case Nil
  then show ?case by simp
next
  case (Cons e es)
  then show ?case
    by (cases "step e l") (auto dest: step_wf)
qed

section \<open>What a step does to a connection\<close>

lemma step_conn:
  assumes "step e l = Return l'" "i < length (conns l)"
  shows "conns l' ! i = conns l ! i
    \<or> (e = EvClose i \<and> \<not> connClosed (Conn (conns l ! i)) \<and>
        conns l' ! i = (conns l ! i)\<lparr>Conn := (Conn (conns l ! i))\<lparr>connClosed := True\<rparr>,
                                      senders := senders (conns l ! i) + 1\<rparr>)
    \<or> (e = EvWatcherClosed i \<and> watcher (conns l ! i) = Selecting \<and> 0 < senders (conns l ! i) \<and>
        conns l' ! i = (conns l ! i)\<lparr>watcher := Exited, senders := senders (conns l ! i) - 1\<rparr>)
    \<or> (e = EvWatcherForce i \<and> closeByForce l \<and> watcher (conns l ! i) = Selecting \<and>
        connClosed (Conn (conns l ! i)) \<and> conns l' ! i = (conns l ! i)\<lparr>watcher := Exited\<rparr>)
    \<or> (e = EvWatcherForce i \<and> closeByForce l \<and> watcher (conns l ! i) = Selecting \<and>
        \<not> connClosed (Conn (conns l ! i)) \<and>
        conns l' ! i = (conns l ! i)\<lparr>Conn := (Conn (conns l ! i))\<lparr>connClosed := True\<rparr>,
                                      watcher := Sending\<rparr>)"
proof (cases e)
  case EvAccept
  with assms show ?thesis
    by (auto simp: Accept_def AcceptTCP_def Let_def nth_append
        split: if_splits option.splits list.splits sum.splits prod.splits outcome.splits)
next
  case (EvClose j)
  with assms show ?thesis
    by (cases "j = i")
      (auto simp: simpleupdaterConn_Close_def netConnClose_def setConn_def Let_def split: if_splits)
next
  case (EvWatcherClosed j)
  with assms show ?thesis
    by (cases "j = i") (auto simp: setConn_def split: if_splits)
next
  case (EvWatcherForce j)
  with assms show ?thesis
    by (cases "j = i")
      (auto simp: simpleupdaterConn_Close_def netConnClose_def setConn_def Let_def split: if_splits)
next
  case (EvRelease d)
  with assms show ?thesis
    by (auto simp: release_def split: prod.splits)
next
  case (EvWaited k)
  with assms show ?thesis by (auto simp: setRelease_def split: if_splits)
next
  case (EvTimerWaited k)
  with assms show ?thesis by (auto simp: setRelease_def split: if_splits)
next
  case (EvTimeout k)
  with assms show ?thesis by (auto simp: setRelease_def split: if_splits)
qed

lemma step_length: "step e l = Return l' \<Longrightarrow> length (conns l) \<le> length (conns l')"
  by (cases e)
    (auto simp: Accept_def AcceptTCP_def Let_def simpleupdaterConn_Close_def netConnClose_def setConn_def
        setRelease_def release_def
      split: if_splits option.splits list.splits sum.splits prod.splits outcome.splits)

lemma step_lclosed:
  "lclosed (Listener l) \<Longrightarrow> step e l = Return l' \<Longrightarrow>
     lclosed (Listener l') \<and> length (conns l') = length (conns l)"
  by (cases e)
    (auto simp: Accept_def AcceptTCP_def Let_def simpleupdaterConn_Close_def netConnClose_def setConn_def
        setRelease_def release_def netListenerClose_def
      split: if_splits option.splits list.splits sum.splits prod.splits outcome.splits)

lemma step_closeError:
  "\<forall>d. e \<noteq> EvRelease d \<Longrightarrow> step e l = Return l' \<Longrightarrow> closeError l' = closeError l"
  by (cases e)
    (auto simp: Accept_def AcceptTCP_def Let_def simpleupdaterConn_Close_def netConnClose_def setConn_def
        setRelease_def
      split: if_splits option.splits list.splits sum.splits prod.splits outcome.splits)

lemma step_closeByForce:
  "\<not> closeByForce l \<Longrightarrow> \<forall>k. e \<noteq> EvTimeout k \<Longrightarrow> step e l = Return l' \<Longrightarrow> \<not> closeByForce l'"
  by (cases e)
    (auto simp: Accept_def AcceptTCP_def Let_def simpleupdaterConn_Close_def netConnClose_def setConn_def
        setRelease_def release_def
      split: if_splits option.splits list.splits sum.splits prod.splits outcome.splits)

lemma step_releases:
  "\<forall>d. e \<noteq> EvRelease d \<Longrightarrow> step e l = Return l' \<Longrightarrow> length (releases l') = length (releases l)"
  by (cases e)
    (auto simp: Accept_def AcceptTCP_def Let_def simpleupdaterConn_Close_def netConnClose_def setConn_def
        setRelease_def
      split: if_splits option.splits list.splits sum.splits prod.splits outcome.splits)

lemma steps_invariant:
  assumes "steps es l = Return l'" and "P l"
    and "\<And>e a b. e \<in> set es \<Longrightarrow> P a \<Longrightarrow> step e a = Return b \<Longrightarrow> P b"
  shows "P l'"
  using assms
proof (induction es arbitrary: l)
  case Nil
  then show ?case by simp
next
  case (Cons e es)
  from Cons.prems(1) obtain l1 where s: "step e l = Return l1" and r: "steps es l1 = Return l'"
    by (cases "step e l") auto
  from Cons.prems(3) [OF _ Cons.prems(2) s] have "P l1" by simp
  show ?case
  proof (rule Cons.IH [OF r \<open>P l1\<close>])
    fix e' a b
    assume "e' \<in> set es" "P a" "step e' a = Return b"
    with Cons.prems(3) [of e' a b] show "P b" by simp
  qed
qed

lemma steps_append:
  "steps (es @ fs) l = (case steps es l of Return l1 \<Rightarrow> steps fs l1 | Exit n \<Rightarrow> Exit n
                      | Panic \<Rightarrow> Panic | Block \<Rightarrow> Block)"
  by (induction es arbitrary: l) (auto split: outcome.splits)

lemma steps_closeError:
  assumes "steps es l = Return l'" "\<forall>d. EvRelease d \<notin> set es"
  shows "closeError l' = closeError l"
  using assms(1)
proof (rule steps_invariant [where P = "\<lambda>a. closeError a = closeError l"])
  show "closeError l = closeError l" by simp
next
  fix e a b
  assume "e \<in> set es" "closeError a = closeError l" "step e a = Return b"
  with assms(2) step_closeError [of e a b] show "closeError b = closeError l" by auto
qed

lemma steps_closeByForce:
  assumes "steps es l = Return l'" "\<forall>k. EvTimeout k \<notin> set es" "\<not> closeByForce l"
  shows "\<not> closeByForce l'"
  using assms(1)
proof (rule steps_invariant [where P = "\<lambda>a. \<not> closeByForce a"])
  show "\<not> closeByForce l" by fact
next
  fix e a b
  assume "e \<in> set es" "\<not> closeByForce a" "step e a = Return b"
  with assms(2) step_closeByForce [of a e b] show "\<not> closeByForce b" by auto
qed

lemma steps_no_release:
  assumes "steps es l = Return l'" "\<forall>d. EvRelease d \<notin> set es"
  shows "length (releases l') = length (releases l)"
  using assms(1)
proof (rule steps_invariant [where P = "\<lambda>a. length (releases a) = length (releases l)"])
  show "length (releases l) = length (releases l)" by simp
next
  fix e a b
  assume "e \<in> set es" "length (releases a) = length (releases l)" "step e a = Return b"
  with assms(2) step_releases [of e a b] show "length (releases b) = length (releases l)" by auto
qed

lemma steps_lclosed:
  assumes "steps es l = Return l'" "lclosed (Listener l)"
  shows "lclosed (Listener l') \<and> length (conns l') = length (conns l)"
  using assms(1)
proof (rule steps_invariant
    [where P = "\<lambda>a. lclosed (Listener a) \<and> length (conns a) = length (conns l)"])
  show "lclosed (Listener l) \<and> length (conns l) = length (conns l)" using assms(2) by simp
next
  fix e a b
  assume "lclosed (Listener a) \<and> length (conns a) = length (conns l)" "step e a = Return b"
  with step_lclosed [of a e b]
  show "lclosed (Listener b) \<and> length (conns b) = length (conns l)" by simp
qed

lemma steps_closed:
  assumes "steps es l = Return l'" "i < length (conns l)" "connClosed (Conn (conns l ! i))"
  shows "i < length (conns l') \<and> connClosed (Conn (conns l' ! i))"
  using assms(1)
proof (rule steps_invariant
    [where P = "\<lambda>a. i < length (conns a) \<and> connClosed (Conn (conns a ! i))"])
  show "i < length (conns l) \<and> connClosed (Conn (conns l ! i))" using assms by simp
next
  fix e a b
  assume a: "i < length (conns a) \<and> connClosed (Conn (conns a ! i))" and s: "step e a = Return b"
  from step_length [OF s] a have "i < length (conns b)" by simp
  moreover from step_conn [OF s, of i] a have "connClosed (Conn (conns b ! i))" by auto
  ultimately show "i < length (conns b) \<and> connClosed (Conn (conns b ! i))" by simp
qed

text \<open>A closed connection that was not closed by force stays so.\<close>

lemma step_settled:
  assumes "step e l = Return l'" "i < length (conns l)"
    and "connClosed (Conn (conns l ! i))" "watcher (conns l ! i) \<noteq> Sending"
  shows "connClosed (Conn (conns l' ! i)) \<and> watcher (conns l' ! i) \<noteq> Sending"
  using step_conn [OF assms(1,2)] assms(3,4) by auto

lemma steps_settled:
  assumes "steps es l = Return l'" "i < length (conns l)"
    and "connClosed (Conn (conns l ! i))" "watcher (conns l ! i) \<noteq> Sending"
  shows "connClosed (Conn (conns l' ! i)) \<and> watcher (conns l' ! i) \<noteq> Sending"
  using assms(1)
proof (rule steps_invariant [where P = "\<lambda>a. i < length (conns a) \<and>
    connClosed (Conn (conns a ! i)) \<and> watcher (conns a ! i) \<noteq> Sending", THEN conjunct2])
  show "i < length (conns l) \<and> connClosed (Conn (conns l ! i)) \<and> watcher (conns l ! i) \<noteq> Sending"
    using assms by simp
next
  fix e a b
  assume a: "i < length (conns a) \<and> connClosed (Conn (conns a ! i)) \<and> watcher (conns a ! i) \<noteq> Sending"
    and s: "step e a = Return b"
  from step_length [OF s] a have "i < length (conns b)" by simp
  with step_settled [OF s] a
  show "i < length (conns b) \<and> connClosed (Conn (conns b ! i)) \<and> watcher (conns b ! i) \<noteq> Sending"
    by simp
qed

text \<open>
  While no caller closes it, a connection that is open or closed by force stays open or
  closed by force.
\<close>

lemma step_open_or_forced:
  assumes "step e l = Return l'" "i < length (conns l)" "wf_listener l"
    and "\<forall>j. e \<noteq> EvClose j"
    and "\<not> connClosed (Conn (conns l ! i)) \<or> watcher (conns l ! i) = Sending"
  shows "\<not> connClosed (Conn (conns l' ! i)) \<or> watcher (conns l' ! i) = Sending"
proof -
  from assms(2,3) have "conn_ok (closeByForce l) (conns l ! i)"
    by (simp add: wf_listener_def list_all_nth)
  with step_conn [OF assms(1,2)] assms(4,5) show ?thesis
    by (auto simp: conn_ok_def split: if_splits)
qed

lemma steps_open_or_forced:
  assumes "steps es l = Return l'" "i < length (conns l)" "wf_listener l"
    and "\<forall>j. EvClose j \<notin> set es"
    and "\<not> connClosed (Conn (conns l ! i)) \<or> watcher (conns l ! i) = Sending"
  shows "\<not> connClosed (Conn (conns l' ! i)) \<or> watcher (conns l' ! i) = Sending"
  using assms(1)
proof (rule steps_invariant [where P = "\<lambda>a. (i < length (conns a) \<and> wf_listener a) \<and>
    (\<not> connClosed (Conn (conns a ! i)) \<or> watcher (conns a ! i) = Sending)", THEN conjunct2])
  show "(i < length (conns l) \<and> wf_listener l) \<and>
    (\<not> connClosed (Conn (conns l ! i)) \<or> watcher (conns l ! i) = Sending)"
    using assms by simp
next
  fix e a b
  assume e: "e \<in> set es"
    and a: "(i < length (conns a) \<and> wf_listener a) \<and>
      (\<not> connClosed (Conn (conns a ! i)) \<or> watcher (conns a ! i) = Sending)"
    and s: "step e a = Return b"
  from e assms(4) have ne: "\<forall>j. e \<noteq> EvClose j" by auto
  from step_length [OF s] a have "i < length (conns b)" by simp
  moreover from a s have "wf_listener b" by (auto dest: step_wf)
  moreover from step_open_or_forced [OF s _ _ ne] a
  have "\<not> connClosed (Conn (conns b ! i)) \<or> watcher (conns b ! i) = Sending" by blast
  ultimately show "(i < length (conns b) \<and> wf_listener b) \<and>
      (\<not> connClosed (Conn (conns b ! i)) \<or> watcher (conns b ! i) = Sending)" by simp
qed

lemma open_conns_count:
  "length (open_conns l) = length (filter (\<lambda>u. \<not> connClosed (Conn u)) (conns l))"
proof -
  have "filter (\<lambda>u. \<not> connClosed (Conn u)) (conns l)
      = filter (\<lambda>u. \<not> connClosed (Conn u)) (map ((!) (conns l)) [0..<length (conns l)])"
    by (simp add: map_nth)
  also have "\<dots> = map ((!) (conns l)) (open_conns l)"
    by (simp add: filter_map open_conns_def comp_def)
  finally show ?thesis by simp
qed

lemma wf_wg: "wf_listener l \<Longrightarrow> wg l = int (length (open_conns l))"
  by (simp add: wf_listener_def open_conns_count)

lemma open_conns_empty:
  "open_conns l = [] \<longleftrightarrow> (\<forall>i < length (conns l). connClosed (Conn (conns l ! i)))"
  by (auto simp: open_conns_def filter_empty_conv)

lemma forced_empty:
  "forced l = [] \<longleftrightarrow> (\<forall>i < length (conns l). watcher (conns l ! i) \<noteq> Sending)"
  by (auto simp: forced_def filter_empty_conv)

lemma wf_not_forced:
  "wf_listener l \<Longrightarrow> \<not> closeByForce l \<Longrightarrow> i < length (conns l) \<Longrightarrow>
     watcher (conns l ! i) \<noteq> Sending"
proof -
  assume w: "wf_listener l" and f: "\<not> closeByForce l" and i: "i < length (conns l)"
  from w i have "conn_ok (closeByForce l) (conns l ! i)"
    by (simp add: wf_listener_def list_all_nth)
  with f show ?thesis by (auto simp: conn_ok_def split: if_splits)
qed

lemma filter_upt_cong:
  "(\<And>i. i < n \<Longrightarrow> P i = Q i) \<Longrightarrow> filter P [0..<n] = filter Q [0..<n]"
  by (rule filter_cong) auto

lemma new_no_release:
  assumes "steps es (newsimpleupdaterListener nl) = Return l" "\<forall>d. EvRelease d \<notin> set es"
  shows "wf_listener l \<and> \<not> closeByForce l"
proof -
  from steps_wf [OF wf_new assms(1)] have w: "wf_listener l" .
  from steps_no_release [OF assms] have "releases l = []"
    by (simp add: newsimpleupdaterListener_def)
  with w show ?thesis by (auto simp: wf_listener_def)
qed

lemma release_props:
  "closeByForce (release d l) = closeByForce l \<and> lclosed (Listener (release d l)) \<and>
   conns (release d l) = conns l \<and> closeError (release d l) = fst (netListenerClose (Listener l))"
  by (simp add: release_def netListenerClose_def split: prod.splits)

lemmas graceful_defs =
  newsimpleupdaterListener_def tcp2_def fake_def Accept_def AcceptTCP_def release_def
  netListenerClose_def simpleupdaterConn_Close_def netConnClose_def setConn_def setRelease_def
  SetKeepAlive_def SetKeepAlivePeriod_def open_conns_def forced_def Close_def File_def

section \<open>Accepting a connection\<close>

text \<open>
  C8. A connection that \<open>Accept\<close> returns is the connection the TCP accept gave, wrapped: it
  is added to the connections of the listener as an open one, the counter of the wait
  group is one higher, keep-alive is on with a period of 3 minutes (180000000000 ns), and
  its watcher waits. \<open>Accept\<close> returns an error, and no connection, exactly when the TCP
  accept returned that error; nothing but the wrapped listener has changed then.
\<close>

theorem Accept_contract:
  "(Accept l = (Return (Inr i), l') \<longrightarrow>
      kind (Listener l) = TCPListener \<and>
      (\<exists>conn nl. AcceptTCP (Listener l) = Some (Inr conn, nl) \<and> Listener l' = nl \<and>
         Conn (conns l' ! i) = conn\<lparr>keepAlive := True, keepAlivePeriod := 3 * Minute\<rparr>) \<and>
      i = length (conns l) \<and> conns l' = conns l @ [conns l' ! i] \<and>
      wg l' = wg l + 1 \<and> i \<in> set (open_conns l') \<and>
      keepAlive (Conn (conns l' ! i)) \<and>
      sint (keepAlivePeriod (Conn (conns l' ! i))) = 180000000000 \<and>
      watcher (conns l' ! i) = Selecting \<and> senders (conns l' ! i) = 0) \<and>
   (Accept l = (Return (Inl err), l') \<longleftrightarrow>
      kind (Listener l) = TCPListener \<and>
      (\<exists>nl. AcceptTCP (Listener l) = Some (Inl err, nl) \<and> l' = l\<lparr>Listener := nl\<rparr>))"
proof -
  have m: "sint (3 * Minute) = 180000000000" by (simp add: Minute_def Second_def)
  have a: "Accept l = (Return (Inr i), l') \<longrightarrow>
      kind (Listener l) = TCPListener \<and>
      (\<exists>conn nl. AcceptTCP (Listener l) = Some (Inr conn, nl) \<and> Listener l' = nl \<and>
         Conn (conns l' ! i) = conn\<lparr>keepAlive := True, keepAlivePeriod := 3 * Minute\<rparr>) \<and>
      i = length (conns l) \<and> conns l' = conns l @ [conns l' ! i] \<and>
      wg l' = wg l + 1 \<and> i \<in> set (open_conns l') \<and>
      keepAlive (Conn (conns l' ! i)) \<and>
      sint (keepAlivePeriod (Conn (conns l' ! i))) = 180000000000 \<and>
      watcher (conns l' ! i) = Selecting \<and> senders (conns l' ! i) = 0"
  proof
    assume acc: "Accept l = (Return (Inr i), l')"
    then have k: "kind (Listener l) = TCPListener"
      by (auto simp: Accept_def split: if_splits)
    from acc k obtain conn nl where u: "AcceptTCP (Listener l) = Some (Inr conn, nl)"
      by (auto simp: Accept_def Let_def split: option.splits sum.splits prod.splits)
    from u have oc: "\<not> connClosed conn"
      by (auto simp: AcceptTCP_def split: if_splits list.splits sum.splits)
    from acc k u have l': "l' = l\<lparr>Listener := nl,
        conns := conns l @ [\<lparr>Conn = conn\<lparr>keepAlive := True, keepAlivePeriod := 3 * Minute\<rparr>,
                              watcher = Selecting, senders = 0\<rparr>],
        wg := wg l + 1\<rparr>" and i: "i = length (conns l)"
      by (auto simp: Accept_def Let_def SetKeepAlive_def SetKeepAlivePeriod_def)
    from l' i oc have "i \<in> set (open_conns l')" by (simp add: open_conns_def)
    with k u l' i m show "kind (Listener l) = TCPListener \<and>
      (\<exists>conn nl. AcceptTCP (Listener l) = Some (Inr conn, nl) \<and> Listener l' = nl \<and>
         Conn (conns l' ! i) = conn\<lparr>keepAlive := True, keepAlivePeriod := 3 * Minute\<rparr>) \<and>
      i = length (conns l) \<and> conns l' = conns l @ [conns l' ! i] \<and>
      wg l' = wg l + 1 \<and> i \<in> set (open_conns l') \<and>
      keepAlive (Conn (conns l' ! i)) \<and>
      sint (keepAlivePeriod (Conn (conns l' ! i))) = 180000000000 \<and>
      watcher (conns l' ! i) = Selecting \<and> senders (conns l' ! i) = 0"
      by simp
  qed
  have b: "Accept l = (Return (Inl err), l') \<longleftrightarrow>
      kind (Listener l) = TCPListener \<and>
      (\<exists>nl. AcceptTCP (Listener l) = Some (Inl err, nl) \<and> l' = l\<lparr>Listener := nl\<rparr>)"
    by (auto simp: Accept_def Let_def split: option.splits sum.splits prod.splits)
  from a b show ?thesis by blast
qed

theorem Accept_contract_witness:
  "Accept (newsimpleupdaterListener tcp2)
     = (Return (Inr 0),
        \<lparr>Listener = tcp2\<lparr>incoming := [Inr 8]\<rparr>, closeError = None, closeByForce = False, wg = 1,
         conns = [\<lparr>Conn = \<lparr>fd = 7, keepAlive = True, keepAlivePeriod = 180000000000,
                           connClosed = False\<rparr>,
                   watcher = Selecting, senders = 0\<rparr>],
         releases = []\<rparr>) \<and>
   wg (snd (Accept (newsimpleupdaterListener tcp2))) = wg (newsimpleupdaterListener tcp2) + 1"
proof -
  have ev: "Accept (newsimpleupdaterListener tcp2)
     = (Return (Inr 0),
        \<lparr>Listener = tcp2\<lparr>incoming := [Inr 8]\<rparr>, closeError = None, closeByForce = False, wg = 1,
         conns = [\<lparr>Conn = \<lparr>fd = 7, keepAlive = True, keepAlivePeriod = 180000000000,
                           connClosed = False\<rparr>,
                   watcher = Selecting, senders = 0\<rparr>],
         releases = []\<rparr>)"
    by (simp add: graceful_defs Minute_def Second_def)
  from Accept_contract [THEN conjunct1, rule_format, OF ev]
  have "wg \<lparr>Listener = tcp2\<lparr>incoming := [Inr 8]\<rparr>, closeError = None, closeByForce = False,
         wg = 1,
         conns = [\<lparr>Conn = \<lparr>fd = 7, keepAlive = True, keepAlivePeriod = 180000000000,
                           connClosed = False\<rparr>,
                   watcher = Selecting, senders = 0\<rparr>],
         releases = []\<rparr> = wg (newsimpleupdaterListener tcp2) + 1"
    by blast
  with ev show ?thesis by simp
qed

text \<open>
  C9, as amended. The listener works over TCP only: \<open>Accept\<close> and \<open>File\<close> of a wrapped
  listener panic exactly when its dynamic type is not \<open>*net.TCPListener\<close>.
\<close>

theorem graceful_tcp_only:
  "(fst (Accept (newsimpleupdaterListener nl)) = Panic \<longleftrightarrow> kind nl \<noteq> TCPListener) \<and>
   (File (newsimpleupdaterListener nl) = Panic \<longleftrightarrow> kind nl \<noteq> TCPListener)"
  by (auto simp: Accept_def File_def newsimpleupdaterListener_def Let_def
      split: option.splits sum.splits prod.splits)

theorem graceful_tcp_only_witness:
  "fst (Accept (newsimpleupdaterListener tcp2)) \<noteq> Panic \<and>
   File (newsimpleupdaterListener tcp2) \<noteq> Panic"
  using graceful_tcp_only [of tcp2] by (simp add: tcp2_def)

text \<open>
  The claim as stated fails for a listener that is not a TCP listener: the type assertion
  of \<open>Accept\<close> and of \<open>File\<close> panics.
\<close>

theorem fake_listener_panics_counterexample:
  "fst (Accept (newsimpleupdaterListener fake)) = Panic \<and>
   File (newsimpleupdaterListener fake) = Panic"
  by (simp add: Accept_def File_def newsimpleupdaterListener_def fake_def)

section \<open>Closing a connection twice\<close>

text \<open>
  C3. The first \<open>Close\<close> of an open connection takes one from the counter and goes to its
  send. From then on, whatever steps are taken in between, a further \<open>Close\<close> of that
  connection returns the error of the closed socket at once and changes nothing: the
  counter is not decremented again and nothing is sent on \<open>closed\<close>.
\<close>

theorem conn_Close_twice:
  assumes i: "i < length (conns l0)" and o: "\<not> connClosed (Conn (conns l0 ! i))"
    and s: "step (EvClose i) l0 = Return l1" and r: "steps evs l1 = Return l"
  shows "wg l1 = wg l0 - 1 \<and> senders (conns l1 ! i) = senders (conns l0 ! i) + 1 \<and>
         simpleupdaterConn_Close i l = (Return (Some errClosed), l) \<and> step (EvClose i) l = Return l"
proof -
  from s i o have l1: "wg l1 = wg l0 - 1" "senders (conns l1 ! i) = senders (conns l0 ! i) + 1"
    "connClosed (Conn (conns l1 ! i))" "length (conns l1) = length (conns l0)"
    by (auto simp: simpleupdaterConn_Close_def netConnClose_def setConn_def Let_def split: if_splits)
  from steps_closed [OF r] l1 i have c: "i < length (conns l)" "connClosed (Conn (conns l ! i))"
    by simp_all
  from simpleupdaterConn_Close_closed [OF c(2)] have "simpleupdaterConn_Close i l = (Return (Some errClosed), l)" .
  with c(1) l1 show ?thesis by simp
qed

theorem conn_Close_twice_witness:
  "steps ([EvAccept, EvAccept] @ [EvClose 0] @ [EvWatcherClosed 0] @ [EvClose 0])
       (newsimpleupdaterListener tcp2)
     = steps ([EvAccept, EvAccept] @ [EvClose 0] @ [EvWatcherClosed 0])
       (newsimpleupdaterListener tcp2) \<and>
   map_outcome wg (steps ([EvAccept, EvAccept] @ [EvClose 0] @ [EvWatcherClosed 0] @ [EvClose 0])
       (newsimpleupdaterListener tcp2)) = Return 1"
proof -
  obtain l0 where r0: "steps [EvAccept, EvAccept] (newsimpleupdaterListener tcp2) = Return l0"
    by (simp add: graceful_defs Minute_def Second_def)
  have i: "0 < length (conns l0)" and o: "\<not> connClosed (Conn (conns l0 ! 0))"
    and w0: "wg l0 = 2"
    using r0 by (auto simp: graceful_defs Minute_def Second_def)
  obtain l1 where s: "step (EvClose 0) l0 = Return l1"
    using r0 by (auto simp: graceful_defs Minute_def Second_def)
  obtain l where r: "steps [EvWatcherClosed 0] l1 = Return l"
    using r0 s by (auto simp: graceful_defs Minute_def Second_def)
  from conn_Close_twice [OF i o s r] w0
  have t: "step (EvClose 0) l = Return l" and w1: "wg l1 = 1" by simp_all
  from r have "wg l = wg l1" by (auto simp: setConn_def split: if_splits)
  with w1 have w: "wg l = 1" by simp
  from s have r1: "steps [EvClose 0] l0 = Return l1" by simp
  from t have r2: "steps [EvClose 0] l = Return l" by simp
  from w show ?thesis
    by (simp only: steps_append r0 r1 r r2 outcome.case outcome.map)
qed

section \<open>The blocking Close of the listener\<close>

text \<open>
  C2. In every state a listener reaches after \<open>release\<close> (and before a further one), the
  counter of the wait group is the number of open connections, and the blocking \<open>Close\<close>
  blocks while a connection is open and returns, once none is, the error that closing the
  socket of the listener gave in \<open>release\<close>, nil or not.
\<close>

theorem Close_blocks_until_drained:
  assumes r0: "steps evs0 (newsimpleupdaterListener nl) = Return l0"
    and r: "steps evs (release d l0) = Return l" and n: "\<forall>d. EvRelease d \<notin> set evs"
  shows "wg l = int (length (open_conns l)) \<and>
         Close l = (if open_conns l = [] then Return (fst (netListenerClose (Listener l0)))
                    else Block)"
proof -
  from steps_wf [OF wf_new r0] have "wf_listener l0" .
  from steps_wf [OF release_wf [OF this] r] have w: "wf_listener l" .
  from steps_closeError [OF r n] release_props [of d l0]
  have "closeError l = fst (netListenerClose (Listener l0))" by simp
  with wf_wg [OF w] show ?thesis by (simp add: Close_def)
qed

theorem Close_blocks_until_drained_witness:
  "map_outcome Close (steps ([EvAccept, EvAccept] @ [EvRelease (2 * Second)] @ [EvClose 0, EvWatcherClosed 0])
       (newsimpleupdaterListener tcp2)) = Return Block \<and>
   map_outcome Close (steps ([EvAccept, EvAccept] @ [EvRelease (2 * Second)] @
         [EvClose 0, EvWatcherClosed 0, EvClose (Suc 0), EvWatcherClosed (Suc 0)])
       (newsimpleupdaterListener tcp2))
     = Return (Return (Some (Err ''close tcp 127.0.0.1:9001: input/output error'')))"
proof -
  obtain l0 where r0: "steps [EvAccept, EvAccept] (newsimpleupdaterListener tcp2) = Return l0"
    by (simp add: graceful_defs Minute_def Second_def)
  obtain l1 where r1: "steps [EvClose 0, EvWatcherClosed 0] (release (2 * Second) l0) = Return l1"
    using r0 by (auto simp: graceful_defs Minute_def Second_def)
  obtain l2 where r2: "steps [EvClose 0, EvWatcherClosed 0, EvClose (Suc 0), EvWatcherClosed (Suc 0)]
       (release (2 * Second) l0) = Return l2"
    using r0 by (auto simp: graceful_defs Minute_def Second_def)
  have o1: "open_conns l1 \<noteq> []"
    using r0 r1 by (auto simp: graceful_defs Minute_def Second_def)
  have o2: "open_conns l2 = []"
    using r0 r2 by (auto simp: graceful_defs Minute_def Second_def)
  have e: "fst (netListenerClose (Listener l0))
      = Some (Err ''close tcp 127.0.0.1:9001: input/output error'')"
    using r0 by (auto simp: graceful_defs Minute_def Second_def)
  from Close_blocks_until_drained [OF r0 r1] o1 have c1: "Close l1 = Block" by simp
  from Close_blocks_until_drained [OF r0 r2] o2 e
  have c2: "Close l2 = Return (Some (Err ''close tcp 127.0.0.1:9001: input/output error''))"
    by simp
  have rr: "steps [EvRelease (2 * Second)] l0 = Return (release (2 * Second) l0)" by simp
  from c1 c2 show ?thesis
    by (simp only: steps_append r0 rr r1 r2 outcome.case outcome.map)
qed

section \<open>Release, drain and timeout\<close>

lemma step_force_open:
  assumes w: "wf_listener l" and fc: "closeByForce l" and i: "i < length (conns l)"
    and o: "\<not> connClosed (Conn (conns l ! i))"
  shows "step (EvWatcherForce i) l =
     Return (l\<lparr>conns := (conns l)[i := (conns l ! i)\<lparr>Conn := (Conn (conns l ! i))\<lparr>connClosed := True\<rparr>,
                                                   watcher := Sending\<rparr>],
              wg := wg l - 1\<rparr>)"
proof -
  from w i have "conn_ok (closeByForce l) (conns l ! i)"
    by (simp add: wf_listener_def list_all_nth)
  with o have sel: "watcher (conns l ! i) = Selecting" by (simp add: conn_ok_def)
  from wf_open_wg_pos [OF w i o] have pos: "0 < wg l" .
  from i sel fc o pos show ?thesis
    by (auto simp: simpleupdaterConn_Close_open setConn_def)
qed

lemma steps_force_all:
  assumes "wf_listener l" "closeByForce l" "distinct ds"
    and "\<forall>i \<in> set ds. i < length (conns l) \<and> \<not> connClosed (Conn (conns l ! i))"
  shows "\<exists>l'. steps (map EvWatcherForce ds) l = Return l' \<and>
           length (conns l') = length (conns l) \<and> closeError l' = closeError l \<and>
           (\<forall>i < length (conns l). conns l' ! i =
              (if i \<in> set ds
               then (conns l ! i)\<lparr>Conn := (Conn (conns l ! i))\<lparr>connClosed := True\<rparr>,
                                   watcher := Sending\<rparr>
               else conns l ! i))"
  using assms
proof (induction ds arbitrary: l)
  case Nil
  then show ?case by simp
next
  case (Cons d ds)
  let ?u = "(conns l ! d)\<lparr>Conn := (Conn (conns l ! d))\<lparr>connClosed := True\<rparr>, watcher := Sending\<rparr>"
  let ?l1 = "l\<lparr>conns := (conns l)[d := ?u], wg := wg l - 1\<rparr>"
  from Cons.prems have d: "d < length (conns l)" and od: "\<not> connClosed (Conn (conns l ! d))"
    and nd: "d \<notin> set ds" and dist: "distinct ds"
    by simp_all
  from step_force_open [OF Cons.prems(1,2) d od]
  have s: "step (EvWatcherForce d) l = Return ?l1" .
  from step_wf [OF Cons.prems(1) s] have w1: "wf_listener ?l1" .
  from Cons.prems(2) have fc1: "closeByForce ?l1" by simp
  have op1: "\<forall>i \<in> set ds. i < length (conns ?l1) \<and> \<not> connClosed (Conn (conns ?l1 ! i))"
  proof
    fix i assume i: "i \<in> set ds"
    with nd have "i \<noteq> d" by auto
    with i Cons.prems(4) show "i < length (conns ?l1) \<and> \<not> connClosed (Conn (conns ?l1 ! i))"
      by simp
  qed
  from Cons.IH [OF w1 fc1 dist op1] obtain l' where
    r: "steps (map EvWatcherForce ds) ?l1 = Return l'"
    and len: "length (conns l') = length (conns ?l1)"
    and ce: "closeError l' = closeError ?l1"
    and pt: "\<forall>i < length (conns ?l1). conns l' ! i =
              (if i \<in> set ds
               then (conns ?l1 ! i)\<lparr>Conn := (Conn (conns ?l1 ! i))\<lparr>connClosed := True\<rparr>,
                                   watcher := Sending\<rparr>
               else conns ?l1 ! i)"
    by blast
  from s r have "steps (map EvWatcherForce (d # ds)) l = Return l'" by simp
  moreover from len have "length (conns l') = length (conns l)" by simp
  moreover from ce have "closeError l' = closeError l" by simp
  moreover have "\<forall>i < length (conns l). conns l' ! i =
              (if i \<in> set (d # ds)
               then (conns l ! i)\<lparr>Conn := (Conn (conns l ! i))\<lparr>connClosed := True\<rparr>,
                                   watcher := Sending\<rparr>
               else conns l ! i)"
  proof (intro allI impI)
    fix i assume i: "i < length (conns l)"
    show "conns l' ! i =
              (if i \<in> set (d # ds)
               then (conns l ! i)\<lparr>Conn := (Conn (conns l ! i))\<lparr>connClosed := True\<rparr>,
                                   watcher := Sending\<rparr>
               else conns l ! i)"
    proof (cases "i = d")
      case True
      with pt i nd show ?thesis by simp
    next
      case False
      with pt i show ?thesis by simp
    qed
  qed
  ultimately show ?case by blast
qed

lemma close_all_simps:
  "close_all [] = []" "close_all (d # ds) = EvClose d # EvWatcherClosed d # close_all ds"
  by (simp_all add: close_all_def)

lemma close_all_events:
  "(\<forall>d. EvRelease d \<notin> set (close_all ds)) \<and> (\<forall>k. EvTimeout k \<notin> set (close_all ds))"
  by (induction ds) (auto simp: close_all_simps)

lemma step_close_open:
  assumes w: "wf_listener l" and i: "i < length (conns l)"
    and o: "\<not> connClosed (Conn (conns l ! i))"
  shows "steps [EvClose i, EvWatcherClosed i] l =
     Return (l\<lparr>conns := (conns l)[i := (conns l ! i)\<lparr>Conn := (Conn (conns l ! i))\<lparr>connClosed := True\<rparr>,
                                                   watcher := Exited, senders := 0\<rparr>],
              wg := wg l - 1\<rparr>)"
proof -
  from w i have "conn_ok (closeByForce l) (conns l ! i)"
    by (simp add: wf_listener_def list_all_nth)
  with o have sel: "watcher (conns l ! i) = Selecting" and sn: "senders (conns l ! i) = 0"
    by (simp_all add: conn_ok_def)
  from wf_open_wg_pos [OF w i o] have pos: "0 < wg l" .
  from i sel sn o pos show ?thesis
    by (auto simp: simpleupdaterConn_Close_open setConn_def)
qed

lemma steps_close_all:
  assumes "wf_listener l" "distinct ds"
    and "\<forall>i \<in> set ds. i < length (conns l) \<and> \<not> connClosed (Conn (conns l ! i))"
  shows "\<exists>l'. steps (close_all ds) l = Return l' \<and>
           length (conns l') = length (conns l) \<and>
           (\<forall>i < length (conns l). connClosed (Conn (conns l' ! i)) =
              (i \<in> set ds \<or> connClosed (Conn (conns l ! i))))"
  using assms
proof (induction ds arbitrary: l)
  case Nil
  then show ?case by (simp add: close_all_simps)
next
  case (Cons d ds)
  let ?u = "(conns l ! d)\<lparr>Conn := (Conn (conns l ! d))\<lparr>connClosed := True\<rparr>, watcher := Exited,
                            senders := 0\<rparr>"
  let ?l1 = "l\<lparr>conns := (conns l)[d := ?u], wg := wg l - 1\<rparr>"
  from Cons.prems have d: "d < length (conns l)" and od: "\<not> connClosed (Conn (conns l ! d))"
    and nd: "d \<notin> set ds" and dist: "distinct ds"
    by simp_all
  from step_close_open [OF Cons.prems(1) d od]
  have s: "steps [EvClose d, EvWatcherClosed d] l = Return ?l1" .
  from steps_wf [OF Cons.prems(1) s] have w1: "wf_listener ?l1" .
  have op1: "\<forall>i \<in> set ds. i < length (conns ?l1) \<and> \<not> connClosed (Conn (conns ?l1 ! i))"
  proof
    fix i assume i: "i \<in> set ds"
    with nd have "i \<noteq> d" by auto
    with i Cons.prems(3) show "i < length (conns ?l1) \<and> \<not> connClosed (Conn (conns ?l1 ! i))"
      by simp
  qed
  from Cons.IH [OF w1 dist op1] obtain l' where
    r: "steps (close_all ds) ?l1 = Return l'"
    and len: "length (conns l') = length (conns ?l1)"
    and pt: "\<forall>i < length (conns ?l1). connClosed (Conn (conns l' ! i)) =
              (i \<in> set ds \<or> connClosed (Conn (conns ?l1 ! i)))"
    by blast
  have "close_all (d # ds) = [EvClose d, EvWatcherClosed d] @ close_all ds"
    by (simp add: close_all_simps)
  with s r have "steps (close_all (d # ds)) l = Return l'"
    by (simp only: steps_append outcome.case)
  moreover from len have "length (conns l') = length (conns l)" by simp
  moreover have "\<forall>i < length (conns l). connClosed (Conn (conns l' ! i)) =
              (i \<in> set (d # ds) \<or> connClosed (Conn (conns l ! i)))"
  proof (intro allI impI)
    fix i assume i: "i < length (conns l)"
    show "connClosed (Conn (conns l' ! i)) = (i \<in> set (d # ds) \<or> connClosed (Conn (conns l ! i)))"
    proof (cases "i = d")
      case True
      with pt i show ?thesis by simp
    next
      case False
      with pt i show ?thesis by simp
    qed
  qed
  ultimately show ?case by blast
qed

lemma close_all_open:
  assumes w: "wf_listener l"
  shows "\<exists>l'. steps (close_all (open_conns l)) l = Return l' \<and> open_conns l' = []"
proof -
  have d: "distinct (open_conns l)" by (simp add: open_conns_def)
  have o: "\<forall>i \<in> set (open_conns l). i < length (conns l) \<and> \<not> connClosed (Conn (conns l ! i))"
    by (simp add: open_conns_def)
  from steps_close_all [OF w d o] obtain l' where
    r: "steps (close_all (open_conns l)) l = Return l'"
    and len: "length (conns l') = length (conns l)"
    and pt: "\<forall>i < length (conns l). connClosed (Conn (conns l' ! i)) =
              (i \<in> set (open_conns l) \<or> connClosed (Conn (conns l ! i)))"
    by blast
  have "connClosed (Conn (conns l' ! i))" if i: "i < length (conns l')" for i
    using pt i len by (auto simp: open_conns_def)
  then have "open_conns l' = []" by (simp add: open_conns_empty)
  with r show ?thesis by blast
qed

lemma drained_stays:
  assumes w: "wf_listener lA" and nf: "\<not> closeByForce lA" and lc: "lclosed (Listener lA)"
    and op: "open_conns lA = []" and r: "steps evsB lA = Return lB"
  shows "forced lB = [] \<and> open_conns lB = [] \<and> wg lB = 0"
proof -
  from steps_lclosed [OF r lc] have len: "length (conns lB) = length (conns lA)" by simp
  have st: "connClosed (Conn (conns lB ! i)) \<and> watcher (conns lB ! i) \<noteq> Sending"
    if i: "i < length (conns lA)" for i
  proof -
    from op i have c: "connClosed (Conn (conns lA ! i))" by (simp add: open_conns_empty)
    from wf_not_forced [OF w nf i] have "watcher (conns lA ! i) \<noteq> Sending" .
    from steps_settled [OF r i c this] show ?thesis .
  qed
  from st len have f: "forced lB = []" by (simp add: forced_empty)
  from st len have o: "open_conns lB = []" by (simp add: open_conns_empty)
  from steps_wf [OF w r] have "wf_listener lB" .
  from wf_wg [OF this] o have "wg lB = 0" by simp
  with f o show ?thesis by simp
qed

lemma timeout_props:
  assumes "step (EvTimeout k) lA = Return lT"
  shows "conns lT = conns lA \<and> closeByForce lT \<and> closeError lT = closeError lA \<and>
         Listener lT = Listener lA"
  using assms by (auto simp: setRelease_def split: if_splits)

lemma timeout_forces_open:
  assumes w: "wf_listener lA" and nf: "\<not> closeByForce lA"
    and t: "step (EvTimeout k) lA = Return lT"
  shows "\<exists>lF. steps (map EvWatcherForce (open_conns lA)) lT = Return lF \<and>
           forced lF = open_conns lA \<and> open_conns lF = [] \<and> wg lF = 0 \<and>
           closeError lF = closeError lA"
proof -
  from timeout_props [OF t] have c: "conns lT = conns lA" and fc: "closeByForce lT"
    and ce: "closeError lT = closeError lA" by simp_all
  from step_wf [OF w t] have wT: "wf_listener lT" .
  have d: "distinct (open_conns lA)" by (simp add: open_conns_def)
  have o: "\<forall>i \<in> set (open_conns lA). i < length (conns lT) \<and> \<not> connClosed (Conn (conns lT ! i))"
    using c by (simp add: open_conns_def)
  from steps_force_all [OF wT fc d o] obtain lF where
    r: "steps (map EvWatcherForce (open_conns lA)) lT = Return lF"
    and len: "length (conns lF) = length (conns lT)"
    and cf: "closeError lF = closeError lT"
    and pt: "\<forall>i < length (conns lT). conns lF ! i =
              (if i \<in> set (open_conns lA)
               then (conns lT ! i)\<lparr>Conn := (Conn (conns lT ! i))\<lparr>connClosed := True\<rparr>,
                                    watcher := Sending\<rparr>
               else conns lT ! i)"
    by blast
  have f: "forced lF = open_conns lA"
    unfolding forced_def open_conns_def len c
  proof (rule filter_upt_cong)
    fix i assume i: "i < length (conns lA)"
    show "(watcher (conns lF ! i) = Sending) = (\<not> connClosed (Conn (conns lA ! i)))"
    proof (cases "connClosed (Conn (conns lA ! i))")
      case True
      with i have "i \<notin> set (open_conns lA)" by (simp add: open_conns_def)
      with pt i c have "conns lF ! i = conns lA ! i" by simp
      with wf_not_forced [OF w nf i] True show ?thesis by simp
    next
      case False
      with i have "i \<in> set (open_conns lA)" by (simp add: open_conns_def)
      with pt i c False show ?thesis by simp
    qed
  qed
  have "connClosed (Conn (conns lF ! i))" if i: "i < length (conns lF)" for i
  proof (cases "connClosed (Conn (conns lA ! i))")
    case True
    with i len c have "i \<notin> set (open_conns lA)" by (simp add: open_conns_def)
    with pt i len c True show ?thesis by simp
  next
    case False
    with i len c have "i \<in> set (open_conns lA)" by (simp add: open_conns_def)
    with pt i len c show ?thesis by simp
  qed
  then have oF: "open_conns lF = []" by (simp add: open_conns_empty)
  from steps_wf [OF wT r] have "wf_listener lF" .
  from wf_wg [OF this] oF have "wg lF = 0" by simp
  with r f oF cf ce show ?thesis by simp
qed

lemma timeout_forces_only_open:
  assumes w: "wf_listener lA" and nf: "\<not> closeByForce lA" and lc: "lclosed (Listener lA)"
    and t: "step (EvTimeout k) lA = Return lT" and r: "steps evsB lT = Return lB"
  shows "set (forced lB) \<subseteq> set (open_conns lA)"
proof
  fix i assume "i \<in> set (forced lB)"
  then have iB: "i < length (conns lB)" and s: "watcher (conns lB ! i) = Sending"
    by (simp_all add: forced_def)
  from timeout_props [OF t] have c: "conns lT = conns lA" and l: "Listener lT = Listener lA"
    by simp_all
  from steps_lclosed [OF r] lc l c have len: "length (conns lB) = length (conns lA)" by simp
  with iB have i: "i < length (conns lA)" by simp
  have "\<not> connClosed (Conn (conns lA ! i))"
  proof
    assume cl: "connClosed (Conn (conns lA ! i))"
    from wf_not_forced [OF w nf i] have "watcher (conns lA ! i) \<noteq> Sending" .
    with steps_settled [OF r, of i] i c cl have "watcher (conns lB ! i) \<noteq> Sending" by simp
    with s show False by simp
  qed
  with i show "i \<in> set (open_conns lA)" by (simp add: open_conns_def)
qed

lemma timeout_forces_exactly:
  assumes w: "wf_listener lA" and nf: "\<not> closeByForce lA" and lc: "lclosed (Listener lA)"
    and t: "step (EvTimeout k) lA = Return lT" and r: "steps evsB lT = Return lB"
    and nc: "\<forall>i. EvClose i \<notin> set evsB" and o: "open_conns lB = []"
  shows "forced lB = open_conns lA"
proof -
  from timeout_props [OF t] have c: "conns lT = conns lA" and l: "Listener lT = Listener lA"
    by simp_all
  from step_wf [OF w t] have wT: "wf_listener lT" .
  from steps_lclosed [OF r] lc l c have len: "length (conns lB) = length (conns lA)" by simp
  show ?thesis
    unfolding forced_def open_conns_def len
  proof (rule filter_upt_cong)
    fix i assume i: "i < length (conns lA)"
    show "(watcher (conns lB ! i) = Sending) = (\<not> connClosed (Conn (conns lA ! i)))"
    proof (cases "connClosed (Conn (conns lA ! i))")
      case True
      from wf_not_forced [OF w nf i] have "watcher (conns lA ! i) \<noteq> Sending" .
      with steps_settled [OF r, of i] i c True show ?thesis by simp
    next
      case False
      with steps_open_or_forced [OF r _ wT nc, of i] i c
      have "\<not> connClosed (Conn (conns lB ! i)) \<or> watcher (conns lB ! i) = Sending" by simp
      moreover from o i len have "connClosed (Conn (conns lB ! i))"
        by (simp add: open_conns_empty)
      ultimately show ?thesis using False by simp
    qed
  qed
qed

text \<open>
  C1. A listener has accepted connections and \<open>release\<close> is called, for the first time.
  The callers can then close every open connection, each \<open>Close\<close> returning, and after
  that no connection is closed by force and the blocking \<open>Close\<close> returns. More
  generally, steps are taken that do not include the timeout. If by then every connection
  is closed,
  then in every later state, also after the timeout, no connection is closed by force and
  the blocking \<open>Close\<close> returns the error of \<open>release\<close>. If instead the timeout comes in
  that state, \<open>closeByForce\<close> is closed and the watchers of the connections still open can
  run, one after the other, and then exactly those connections are closed by force and
  the blocking \<open>Close\<close> returns; whatever steps are taken after the timeout, only
  connections that were open at the timeout are closed by force, and when no caller
  closes a connection after the timeout and all are closed, they are exactly those.
\<close>

theorem release_drain:
  assumes r0: "steps evs0 (newsimpleupdaterListener nl) = Return l0" and n0: "\<forall>d. EvRelease d \<notin> set evs0"
    and rA: "steps evsA (release d l0) = Return lA" and nA: "\<forall>d. EvRelease d \<notin> set evsA"
    and tA: "\<forall>k. EvTimeout k \<notin> set evsA"
  shows "(\<exists>lC. steps (close_all (open_conns (release d l0))) (release d l0) = Return lC \<and>
            open_conns lC = [] \<and> forced lC = [] \<and>
            Close lC = Return (fst (netListenerClose (Listener l0)))) \<and>
         (open_conns lA = [] \<longrightarrow>
           (\<forall>evsB lB. steps evsB lA = Return lB \<longrightarrow>
              forced lB = [] \<and>
              ((\<forall>d. EvRelease d \<notin> set evsB) \<longrightarrow> Close lB = Return (fst (netListenerClose (Listener l0)))))) \<and>
         (\<forall>lT. step (EvTimeout 0) lA = Return lT \<longrightarrow>
            (\<exists>lF. steps (map EvWatcherForce (open_conns lA)) lT = Return lF \<and>
                   forced lF = open_conns lA \<and> open_conns lF = [] \<and>
                   Close lF = Return (fst (netListenerClose (Listener l0)))) \<and>
            (\<forall>evsB lB. steps evsB lT = Return lB \<longrightarrow>
               set (forced lB) \<subseteq> set (open_conns lA) \<and>
               ((\<forall>i. EvClose i \<notin> set evsB) \<longrightarrow> open_conns lB = [] \<longrightarrow>
                  forced lB = open_conns lA)))"
proof -
  from new_no_release [OF r0 n0] have w0: "wf_listener l0" and nf0: "\<not> closeByForce l0"
    by simp_all
  from release_wf [OF w0] have w1: "wf_listener (release d l0)" .
  from release_props [of d l0] nf0 have nf1: "\<not> closeByForce (release d l0)"
    and lc1: "lclosed (Listener (release d l0))"
    and ce1: "closeError (release d l0) = fst (netListenerClose (Listener l0))"
    by simp_all
  from steps_wf [OF w1 rA] have wA: "wf_listener lA" .
  from steps_closeByForce [OF rA tA nf1] have nfA: "\<not> closeByForce lA" .
  from steps_lclosed [OF rA lc1] have lcA: "lclosed (Listener lA)" by simp
  from steps_closeError [OF rA nA] ce1
  have ceA: "closeError lA = fst (netListenerClose (Listener l0))" by simp
  have part1: "forced lB = [] \<and>
      ((\<forall>d. EvRelease d \<notin> set evsB) \<longrightarrow> Close lB = Return (fst (netListenerClose (Listener l0))))"
    if o: "open_conns lA = []" and rB: "steps evsB lA = Return lB" for evsB lB
  proof -
    from drained_stays [OF wA nfA lcA o rB] have f: "forced lB = []" and z: "wg lB = 0"
      by simp_all
    from steps_closeError [OF rB] ceA z
    have "(\<forall>d. EvRelease d \<notin> set evsB) \<longrightarrow> Close lB = Return (fst (netListenerClose (Listener l0)))"
      by (simp add: Close_def)
    with f show ?thesis by simp
  qed
  have part2a: "\<exists>lF. steps (map EvWatcherForce (open_conns lA)) lT = Return lF \<and>
                   forced lF = open_conns lA \<and> open_conns lF = [] \<and>
                   Close lF = Return (fst (netListenerClose (Listener l0)))"
    if t: "step (EvTimeout 0) lA = Return lT" for lT
  proof -
    from timeout_forces_open [OF wA nfA t] obtain lF where
      "steps (map EvWatcherForce (open_conns lA)) lT = Return lF" "forced lF = open_conns lA"
      "open_conns lF = []" "wg lF = 0" "closeError lF = closeError lA"
      by blast
    with ceA show ?thesis by (simp add: Close_def)
  qed
  have part2b: "set (forced lB) \<subseteq> set (open_conns lA) \<and>
               ((\<forall>i. EvClose i \<notin> set evsB) \<longrightarrow> open_conns lB = [] \<longrightarrow>
                  forced lB = open_conns lA)"
    if t: "step (EvTimeout 0) lA = Return lT" and rB: "steps evsB lT = Return lB" for lT evsB lB
    using timeout_forces_only_open [OF wA nfA lcA t rB]
      timeout_forces_exactly [OF wA nfA lcA t rB]
    by blast
  have part0: "\<exists>lC. steps (close_all (open_conns (release d l0))) (release d l0) = Return lC \<and>
            open_conns lC = [] \<and> forced lC = [] \<and>
            Close lC = Return (fst (netListenerClose (Listener l0)))"
  proof -
    from close_all_open [OF w1] obtain lC where
      rC: "steps (close_all (open_conns (release d l0))) (release d l0) = Return lC"
      and oC: "open_conns lC = []"
      by blast
    from close_all_events [of "open_conns (release d l0)"]
    have nC: "\<forall>d'. EvRelease d' \<notin> set (close_all (open_conns (release d l0)))"
      and tC: "\<forall>k. EvTimeout k \<notin> set (close_all (open_conns (release d l0)))"
      by simp_all
    from steps_wf [OF w1 rC] have wC: "wf_listener lC" .
    from steps_closeByForce [OF rC tC nf1] have nfC: "\<not> closeByForce lC" .
    from steps_lclosed [OF rC lc1] have lcC: "lclosed (Listener lC)" by simp
    have "steps [] lC = Return lC" by simp
    from drained_stays [OF wC nfC lcC oC this] have "forced lC = []" "wg lC = 0" by simp_all
    moreover from steps_closeError [OF rC nC] ce1
    have "closeError lC = fst (netListenerClose (Listener l0))" by simp
    ultimately show ?thesis using rC oC by (auto simp: Close_def)
  qed
  from part0 part1 part2a part2b show ?thesis by blast
qed

theorem release_drain_witness:
  "map_outcome forced (steps ([EvAccept, EvAccept] @ [EvRelease (2 * Second)] @
       [EvClose 0, EvWatcherClosed 0, EvClose (Suc 0), EvWatcherClosed (Suc 0)] @ [EvTimeout 0])
     (newsimpleupdaterListener tcp2)) = Return [] \<and>
   map_outcome Close (steps ([EvAccept, EvAccept] @ [EvRelease (2 * Second)] @
       [EvClose 0, EvWatcherClosed 0, EvClose (Suc 0), EvWatcherClosed (Suc 0)] @ [EvTimeout 0])
     (newsimpleupdaterListener tcp2))
     = Return (Return (Some (Err ''close tcp 127.0.0.1:9001: input/output error''))) \<and>
   map_outcome forced (steps ([EvAccept, EvAccept] @ [EvRelease (2 * Second)] @
       [EvClose 0, EvWatcherClosed 0] @ [EvTimeout 0] @ map EvWatcherForce [Suc 0])
     (newsimpleupdaterListener tcp2)) = Return [Suc 0] \<and>
   map_outcome Close (steps ([EvAccept, EvAccept] @ [EvRelease (2 * Second)] @
       [EvClose 0, EvWatcherClosed 0] @ [EvTimeout 0] @ map EvWatcherForce [Suc 0])
     (newsimpleupdaterListener tcp2))
     = Return (Return (Some (Err ''close tcp 127.0.0.1:9001: input/output error'')))"
proof -
  obtain l0 where r0: "steps [EvAccept, EvAccept] (newsimpleupdaterListener tcp2) = Return l0"
    by (simp add: graceful_defs Minute_def Second_def)
  have n0: "\<forall>d. EvRelease d \<notin> set [EvAccept, EvAccept]" by simp
  have rr: "steps [EvRelease (2 * Second)] l0 = Return (release (2 * Second) l0)" by simp
  have e: "fst (netListenerClose (Listener l0))
      = Some (Err ''close tcp 127.0.0.1:9001: input/output error'')"
    using r0 by (auto simp: graceful_defs Minute_def Second_def)
  \<comment> \<open>both connections closed before the timeout\<close>
  obtain lA where rA: "steps [EvClose 0, EvWatcherClosed 0, EvClose (Suc 0), EvWatcherClosed (Suc 0)]
       (release (2 * Second) l0) = Return lA"
    using r0 by (auto simp: graceful_defs Minute_def Second_def)
  have oA: "open_conns lA = []"
    using r0 rA by (auto simp: graceful_defs Minute_def Second_def)
  obtain lB where rB: "steps [EvTimeout 0] lA = Return lB"
    using r0 rA by (auto simp: graceful_defs Minute_def Second_def)
  have nA: "\<forall>d. EvRelease d \<notin> set [EvClose 0, EvWatcherClosed 0, EvClose (Suc 0), EvWatcherClosed (Suc 0)]"
    and tA: "\<forall>k. EvTimeout k \<notin> set [EvClose 0, EvWatcherClosed 0, EvClose (Suc 0), EvWatcherClosed (Suc 0)]"
    by simp_all
  from release_drain [OF r0 n0 rA nA tA, THEN conjunct2, THEN conjunct1, rule_format, OF oA rB]
  have c1: "forced lB = []"
    and c2: "Close lB = Return (Some (Err ''close tcp 127.0.0.1:9001: input/output error''))"
    unfolding e by simp_all
  \<comment> \<open>one connection closed before the timeout\<close>
  obtain lA' where rA': "steps [EvClose 0, EvWatcherClosed 0] (release (2 * Second) l0) = Return lA'"
    using r0 by (auto simp: graceful_defs Minute_def Second_def)
  have oA': "open_conns lA' = [Suc 0]"
    using r0 rA' by (auto simp: graceful_defs Minute_def Second_def)
  obtain lT where t: "step (EvTimeout 0) lA' = Return lT"
    using r0 rA' by (auto simp: graceful_defs Minute_def Second_def)
  have nA': "\<forall>d. EvRelease d \<notin> set [EvClose 0, EvWatcherClosed 0]"
    and tA': "\<forall>k. EvTimeout k \<notin> set [EvClose 0, EvWatcherClosed 0]"
    by simp_all
  from release_drain [OF r0 n0 rA' nA' tA', THEN conjunct2, THEN conjunct2, rule_format, OF t,
      THEN conjunct1]
  obtain lF where rF: "steps (map EvWatcherForce [Suc 0]) lT = Return lF"
    and c3: "forced lF = [Suc 0]"
    and c4: "Close lF = Return (Some (Err ''close tcp 127.0.0.1:9001: input/output error''))"
    unfolding oA' e by blast
  from t have rT: "steps [EvTimeout 0] lA' = Return lT" by simp
  from c1 c2 c3 c4 show ?thesis
    by (simp only: steps_append r0 rr rA rB rA' rT rF outcome.case outcome.map)
qed

end
